theory Spec2Isabelle
  imports Main "HOL-Library.AList"
begin


chapter \<open>The model\<close>

text \<open>
  The session registry, the voting result component and the real-time channel of the
  planning poker application, as functions on explicit state. Everything the runtime
  supplies (generated identifiers, the clock, random draws, timer handles) is an argument.
\<close>

section \<open>Strings and maps of the JavaScript runtime\<close>

text \<open>
  Strings are modelled as lists of ASCII characters. \<open>String.prototype.toUpperCase\<close> maps
  the letters a-z to A-Z and leaves every other ASCII character alone;
  \<open>String.prototype.trim\<close> strips the ASCII white space (tab, line feed, vertical tab, form
  feed, carriage return, space) from both ends; \<open>charAt\<close> returns the empty string for an
  index out of range.
\<close>

definition toUpperCase_char :: "char \<Rightarrow> char" where
  "toUpperCase_char c =
     (let n = (of_char c :: nat) in if 97 \<le> n \<and> n \<le> 122 then char_of (n - 32) else c)"

definition toUpperCase :: "string \<Rightarrow> string" where
  "toUpperCase s = map toUpperCase_char s"

definition isWhiteSpace :: "char \<Rightarrow> bool" where
  "isWhiteSpace c = ((of_char c :: nat) \<in> {9, 10, 11, 12, 13, 32})"

definition trim :: "string \<Rightarrow> string" where
  "trim s = rev (dropWhile isWhiteSpace (rev (dropWhile isWhiteSpace s)))"

definition charAt :: "string \<Rightarrow> nat \<Rightarrow> string" where
  "charAt s i = (if i < length s then [s ! i] else [])"

text \<open>
  A JavaScript \<open>Map\<close> keeps its entries in insertion order and holds every key once. It is
  modelled as an association list: \<open>get\<close> is \<open>map_of\<close>, \<open>set\<close> replaces the value of a key in
  place or appends a new entry at the end (\<open>AList.update\<close>), \<open>delete\<close> removes the entry of a
  key (\<open>AList.delete\<close>), \<open>entries()\<close> is the list itself and \<open>size\<close> its length.
\<close>

abbreviation Map_get :: "('k \<times> 'v) list \<Rightarrow> 'k \<Rightarrow> 'v option" where
  "Map_get m k \<equiv> map_of m k"

abbreviation Map_has :: "('k \<times> 'v) list \<Rightarrow> 'k \<Rightarrow> bool" where
  "Map_has m k \<equiv> k \<in> fst ` set m"

abbreviation Map_set :: "('k \<times> 'v) list \<Rightarrow> 'k \<Rightarrow> 'v \<Rightarrow> ('k \<times> 'v) list" where
  "Map_set m k v \<equiv> AList.update k v m"

abbreviation Map_delete :: "('k \<times> 'v) list \<Rightarrow> 'k \<Rightarrow> ('k \<times> 'v) list" where
  "Map_delete m k \<equiv> AList.delete k m"

text \<open>
  A JavaScript \<open>Set\<close> likewise keeps insertion order and holds every element once:
  \<open>add\<close> appends an element that is not yet present, \<open>delete\<close> removes it.
\<close>

definition Set_add :: "'a list \<Rightarrow> 'a \<Rightarrow> 'a list" where
  "Set_add xs x = (if x \<in> set xs then xs else xs @ [x])"

definition Set_delete :: "'a list \<Rightarrow> 'a \<Rightarrow> 'a list" where
  "Set_delete xs x = removeAll x xs"

section \<open>Participants and sessions\<close>

text \<open>
  \<open>IParticipant\<close> as the components use it: an identifier, a display name, the observer
  flag and the selected poker value, which is \<open>null\<close> (here \<open>None\<close>) until the participant
  has voted. Poker values are strings and are compared with \<open>===\<close>, that is by equality.
\<close>

record participant =
  participant_id :: string
  participant_name :: string
  isObserver :: bool
  selectedValue :: "string option"

text \<open>
  Modelled from the spec: the classes \<open>Participant\<close> (utils/Participant.ts) and \<open>Session\<close>
  (utils/Session.ts) are imported by the session manager but are not among the sources.
  The identifier each constructor generates and the clock reading are taken as arguments.
  A new participant has no selected value. A new session is \<open>waiting\<close>, has no participants
  and no story, and \<open>createdAt = updatedAt = now\<close>. The session configuration is opaque to
  the registry and kept as the override that was passed.
\<close>

datatype session_status = waiting | voting | revealed | completed

record 'c session =
  session_id :: string
  session_name :: string
  hostId :: string
  participants :: "participant list"
  status :: session_status
  currentStory :: "string option"
  currentDescription :: "string option"
  config :: "'c option"
  createdAt :: int
  updatedAt :: int

definition Participant_new :: "string \<Rightarrow> string \<Rightarrow> bool \<Rightarrow> participant" where
  "Participant_new pid name asObserver =
     \<lparr>participant_id = pid, participant_name = name, isObserver = asObserver,
      selectedValue = None\<rparr>"

definition Session_new :: "string \<Rightarrow> int \<Rightarrow> string \<Rightarrow> string \<Rightarrow> 'c option \<Rightarrow> 'c session" where
  "Session_new sid now name host cfg =
     \<lparr>session_id = sid, session_name = name, hostId = host, participants = [],
      status = waiting, currentStory = None, currentDescription = None, config = cfg,
      createdAt = now, updatedAt = now\<rparr>"

text \<open>
  Modelled from the spec: \<open>addParticipant\<close> appends the participant unless one with the same
  id is already present, returns whether it was added and refreshes \<open>updatedAt\<close>;
  \<open>removeParticipant\<close> removes by id, returns whether a participant was present and removed,
  and refreshes \<open>updatedAt\<close>. The spec leaves the reassignment of the host open, so
  \<open>hostId\<close> is left as it is.
\<close>

definition addParticipant :: "int \<Rightarrow> participant \<Rightarrow> 'c session \<Rightarrow> bool \<times> 'c session" where
  "addParticipant now p s =
     (if participant_id p \<in> participant_id ` set (participants s) then (False, s)
      else (True, s\<lparr>participants := participants s @ [p], updatedAt := now\<rparr>))"

definition removeParticipant :: "int \<Rightarrow> string \<Rightarrow> 'c session \<Rightarrow> bool \<times> 'c session" where
  "removeParticipant now pid s =
     (if pid \<in> participant_id ` set (participants s)
      then (True, s\<lparr>participants := filter (\<lambda>p. participant_id p \<noteq> pid) (participants s),
                     updatedAt := now\<rparr>)
      else (False, s))"

section \<open>The session registry (utils/SessionManager.ts)\<close>

record CleanupConfig =
  checkInterval :: int
  maxInactivity :: int
  deleteWhenEmpty :: bool

record PartialCleanupConfig =
  checkInterval_opt :: "int option"
  maxInactivity_opt :: "int option"
  deleteWhenEmpty_opt :: "bool option"

definition DEFAULT_CLEANUP_CONFIG :: CleanupConfig where
  "DEFAULT_CLEANUP_CONFIG =
     \<lparr>checkInterval = 60000, maxInactivity = 30 * 60000, deleteWhenEmpty = True\<rparr>"

text \<open>
  The fields of the manager. \<open>joinCodes\<close> maps a join code to a session id;
  \<open>cleanupIntervalId\<close> is the handle of the running interval timer, or \<open>null\<close>.
\<close>

record 'c SessionManager =
  sessions :: "(string \<times> 'c session) list"
  joinCodes :: "(string \<times> string) list"
  cleanupConfig :: CleanupConfig
  cleanupIntervalId :: "nat option"

text \<open>The constructor: \<open>{ ...DEFAULT_CLEANUP_CONFIG, ...config }\<close>.\<close>

definition SessionManager_new :: "PartialCleanupConfig \<Rightarrow> 'c SessionManager" where
  "SessionManager_new cfg =
     \<lparr>sessions = [], joinCodes = [],
      cleanupConfig =
        \<lparr>checkInterval =
           (case checkInterval_opt cfg of None \<Rightarrow> checkInterval DEFAULT_CLEANUP_CONFIG | Some v \<Rightarrow> v),
         maxInactivity =
           (case maxInactivity_opt cfg of None \<Rightarrow> maxInactivity DEFAULT_CLEANUP_CONFIG | Some v \<Rightarrow> v),
         deleteWhenEmpty =
           (case deleteWhenEmpty_opt cfg of None \<Rightarrow> deleteWhenEmpty DEFAULT_CLEANUP_CONFIG | Some v \<Rightarrow> v)\<rparr>,
      cleanupIntervalId = None\<rparr>"

text \<open>
  Modelled from the spec: \<open>JOIN_CODE_LENGTH\<close> is declared in types/poker.ts, which is not
  among the sources; the spec gives 6. The alphabet \<open>JOIN_CODE_CHARS\<close> is declared there as
  well and the spec does not list it, so it is the parameter \<open>chars\<close> of everything that
  uses it. The spec describes it as upper-case alphanumeric characters; \<open>upperAlnum\<close> and
  \<open>validAlphabet\<close> say so.
\<close>

definition JOIN_CODE_LENGTH :: nat where
  "JOIN_CODE_LENGTH = 6"

definition upperAlnum :: "char \<Rightarrow> bool" where
  "upperAlnum c =
     (let n = (of_char c :: nat) in (65 \<le> n \<and> n \<le> 90) \<or> (48 \<le> n \<and> n \<le> 57))"

definition validAlphabet :: "string \<Rightarrow> bool" where
  "validAlphabet chars = (chars \<noteq> [] \<and> list_all upperAlnum chars)"

text \<open>
  \<open>startCleanup\<close> and \<open>stopCleanup\<close>. \<open>tid\<close> is the handle \<open>setInterval\<close> returns.
\<close>

definition startCleanup :: "nat \<Rightarrow> 'c SessionManager \<Rightarrow> 'c SessionManager" where
  "startCleanup tid m =
     (if cleanupIntervalId m \<noteq> None then m else m\<lparr>cleanupIntervalId := Some tid\<rparr>)"

definition stopCleanup :: "'c SessionManager \<Rightarrow> 'c SessionManager" where
  "stopCleanup m =
     (if cleanupIntervalId m \<noteq> None then m\<lparr>cleanupIntervalId := None\<rparr> else m)"

text \<open>
  \<open>generateJoinCode\<close>. Every element of \<open>rs\<close> is one value of
  \<open>Math.floor(Math.random() * JOIN_CODE_CHARS.length)\<close>, in the order the calls are made.
  The loop appends \<open>JOIN_CODE_CHARS.charAt\<close> of \<open>JOIN_CODE_LENGTH\<close> of them; a code that
  is already a key of \<open>joinCodes\<close> makes the function call itself again. The source puts no
  bound on that recursion: the result is \<open>None\<close> when the supplied draws run out before an
  unused code is found. A result carries the code and the draws that are left.
\<close>

fun codeLoop :: "string \<Rightarrow> nat list \<Rightarrow> string \<Rightarrow> string" where
  "codeLoop chars [] code = code"
| "codeLoop chars (r # rs) code = codeLoop chars rs (code @ charAt chars r)"

function generateJoinCode ::
  "string \<Rightarrow> (string \<times> string) list \<Rightarrow> nat list \<Rightarrow> (string \<times> nat list) option" where
  "generateJoinCode chars jc rs =
     (if length rs < JOIN_CODE_LENGTH then None
      else (let code = codeLoop chars (take JOIN_CODE_LENGTH rs) []
            in if Map_has jc code
               then generateJoinCode chars jc (drop JOIN_CODE_LENGTH rs)
               else Some (code, drop JOIN_CODE_LENGTH rs)))"
  by pat_completeness auto
termination
  by (relation "measure (\<lambda>(chars, jc, rs). length rs)") (auto simp: JOIN_CODE_LENGTH_def)

declare generateJoinCode.simps [simp del]

text \<open>
  \<open>createSession\<close>. \<open>hid\<close> and \<open>sid\<close> are the identifiers the \<open>Participant\<close> and \<open>Session\<close>
  constructors generate, \<open>now\<close> the clock, \<open>tid\<close> the timer handle, \<open>rs\<close> the random draws.
  The session is stored before the join code is generated.
\<close>

definition createSession ::
  "string \<Rightarrow> 'c SessionManager \<Rightarrow> string \<Rightarrow> string \<Rightarrow> 'c option \<Rightarrow> string \<Rightarrow> string \<Rightarrow> int \<Rightarrow> nat
     \<Rightarrow> nat list \<Rightarrow> (('c session \<times> participant \<times> string) \<times> 'c SessionManager) option" where
  "createSession chars m name hostName cfg hid sid now tid rs =
     (let host = Participant_new hid hostName False;
          session = snd (addParticipant now host
                      (Session_new sid now name (participant_id host) cfg));
          m1 = m\<lparr>sessions := Map_set (sessions m) (session_id session) session\<rparr>
      in case generateJoinCode chars (joinCodes m1) rs of
           None \<Rightarrow> None
         | Some (joinCode, _) \<Rightarrow>
             (let m2 = m1\<lparr>joinCodes := Map_set (joinCodes m1) joinCode (session_id session)\<rparr>
              in Some ((session, host, joinCode), startCleanup tid m2)))"

text \<open>
  \<open>getSessionByJoinCode\<close>: the code is upper-cased and trimmed; \<open>!sessionId\<close> holds for a
  missing entry and for the empty string.
\<close>

definition getSessionByJoinCode :: "'c SessionManager \<Rightarrow> string \<Rightarrow> 'c session option" where
  "getSessionByJoinCode m joinCode =
     (let normalizedCode = trim (toUpperCase joinCode)
      in case Map_get (joinCodes m) normalizedCode of
           None \<Rightarrow> None
         | Some sessionId \<Rightarrow> if sessionId = [] then None else Map_get (sessions m) sessionId)"

definition getSessionById :: "'c SessionManager \<Rightarrow> string \<Rightarrow> 'c session option" where
  "getSessionById m sessionId = Map_get (sessions m) sessionId"

text \<open>\<open>getJoinCode\<close>: the first entry of \<open>joinCodes\<close>, in insertion order, with the id.\<close>

fun getJoinCode_loop :: "(string \<times> string) list \<Rightarrow> string \<Rightarrow> string option" where
  "getJoinCode_loop [] sessionId = None"
| "getJoinCode_loop ((code, sid) # es) sessionId =
     (if sid = sessionId then Some code else getJoinCode_loop es sessionId)"

definition getJoinCode :: "'c SessionManager \<Rightarrow> string \<Rightarrow> string option" where
  "getJoinCode m sessionId = getJoinCode_loop (joinCodes m) sessionId"

text \<open>
  \<open>joinSession\<close>. \<open>pid\<close> is the identifier the \<open>Participant\<close> constructor generates. The session
  object is changed in place, so the stored session is replaced under the id the join code
  resolved to (the inner \<open>None\<close> case cannot occur once the session was found).
\<close>

definition joinSession ::
  "'c SessionManager \<Rightarrow> string \<Rightarrow> string \<Rightarrow> bool \<Rightarrow> string \<Rightarrow> int
     \<Rightarrow> ('c session \<times> participant) option \<times> 'c SessionManager" where
  "joinSession m joinCode participantName asObserver pid now =
     (case getSessionByJoinCode m joinCode of
        None \<Rightarrow> (None, m)
      | Some session \<Rightarrow>
          (case Map_get (joinCodes m) (trim (toUpperCase joinCode)) of
             None \<Rightarrow> (None, m)
           | Some sessionId \<Rightarrow>
               (let participant = Participant_new pid participantName asObserver;
                    (added, session') = addParticipant now participant session;
                    m' = m\<lparr>sessions := Map_set (sessions m) sessionId session'\<rparr>
                in if \<not> added then (None, m') else (Some (session', participant), m'))))"

text \<open>
  \<open>deleteSession\<close>: the loop removes the first join code that maps to the id and breaks;
  the interval is stopped when no session is left.
\<close>

fun releaseJoinCode ::
  "(string \<times> string) list \<Rightarrow> string \<Rightarrow> (string \<times> string) list \<Rightarrow> (string \<times> string) list" where
  "releaseJoinCode [] sessionId jc = jc"
| "releaseJoinCode ((code, sid) # es) sessionId jc =
     (if sid = sessionId then Map_delete jc code else releaseJoinCode es sessionId jc)"

definition deleteSession :: "'c SessionManager \<Rightarrow> string \<Rightarrow> bool \<times> 'c SessionManager" where
  "deleteSession m sessionId =
     (case Map_get (sessions m) sessionId of
        None \<Rightarrow> (False, m)
      | Some session \<Rightarrow>
          (let m1 = m\<lparr>joinCodes := releaseJoinCode (joinCodes m) sessionId (joinCodes m)\<rparr>;
               m2 = m1\<lparr>sessions := Map_delete (sessions m1) sessionId\<rparr>
           in (True, if length (sessions m2) = 0 then stopCleanup m2 else m2)))"

definition cleanupIfEmpty :: "'c SessionManager \<Rightarrow> string \<Rightarrow> 'c SessionManager" where
  "cleanupIfEmpty m sessionId =
     (case Map_get (sessions m) sessionId of
        None \<Rightarrow> m
      | Some session \<Rightarrow>
          if length (participants session) = 0 then snd (deleteSession m sessionId) else m)"

definition leaveSession ::
  "'c SessionManager \<Rightarrow> string \<Rightarrow> string \<Rightarrow> int \<Rightarrow> bool \<times> 'c SessionManager" where
  "leaveSession m sessionId participantId now =
     (case Map_get (sessions m) sessionId of
        None \<Rightarrow> (False, m)
      | Some session \<Rightarrow>
          (let (removed, session') = removeParticipant now participantId session;
               m1 = m\<lparr>sessions := Map_set (sessions m) sessionId session'\<rparr>
           in (removed,
               if removed \<and> deleteWhenEmpty (cleanupConfig m1)
               then cleanupIfEmpty m1 sessionId else m1)))"

text \<open>
  \<open>performCleanup\<close>. The loop runs over the entries of \<open>sessions\<close>. A \<open>Map\<close> iterator
  visits the entries that are live when it reaches them, and the body deletes the entry
  it is visiting and no other, so the entries visited are the entries at the start.
\<close>

fun sweep :: "int \<Rightarrow> (string \<times> 'c session) list \<Rightarrow> 'c SessionManager \<Rightarrow> 'c SessionManager" where
  "sweep now [] m = m"
| "sweep now ((sessionId, session) # es) m =
     (if deleteWhenEmpty (cleanupConfig m) \<and> length (participants session) = 0
      then sweep now es (snd (deleteSession m sessionId))
      else (let lastActivity = updatedAt session
            in if now - lastActivity > maxInactivity (cleanupConfig m)
               then sweep now es (snd (deleteSession m sessionId))
               else sweep now es m))"

definition performCleanup :: "int \<Rightarrow> 'c SessionManager \<Rightarrow> 'c SessionManager" where
  "performCleanup now m = sweep now (sessions m) m"

definition getSessionCount :: "'c SessionManager \<Rightarrow> nat" where
  "getSessionCount m = length (sessions m)"

text \<open>
  The states of the registry: the new manager, and every state a public method leads to.
  The identifier of a new session is not the key of a stored one (identifiers are unique),
  and every random draw is an index into the alphabet (\<open>Math.random()\<close> is below 1).
  Holders of a session object can call its methods; such a call replaces the stored
  session and keeps its id.
\<close>

inductive reachable :: "string \<Rightarrow> 'c SessionManager \<Rightarrow> bool" for chars :: string where
  reach_new: "reachable chars (SessionManager_new cfg)"
| reach_createSession:
    "reachable chars m \<Longrightarrow> \<not> Map_has (sessions m) sid \<Longrightarrow> \<forall>r \<in> set rs. r < length chars \<Longrightarrow>
     createSession chars m name hostName cfg hid sid now tid rs = Some (res, m') \<Longrightarrow>
     reachable chars m'"
| reach_joinSession:
    "reachable chars m \<Longrightarrow> reachable chars (snd (joinSession m joinCode pname asObserver pid now))"
| reach_leaveSession:
    "reachable chars m \<Longrightarrow> reachable chars (snd (leaveSession m sessionId participantId now))"
| reach_deleteSession:
    "reachable chars m \<Longrightarrow> reachable chars (snd (deleteSession m sessionId))"
| reach_performCleanup:
    "reachable chars m \<Longrightarrow> reachable chars (performCleanup now m)"
| reach_startCleanup:
    "reachable chars m \<Longrightarrow> reachable chars (startCleanup tid m)"
| reach_stopCleanup:
    "reachable chars m \<Longrightarrow> reachable chars (stopCleanup m)"
| reach_sessionMethod:
    "reachable chars m \<Longrightarrow> Map_get (sessions m) sessionId = Some s \<Longrightarrow>
     session_id s' = session_id s \<Longrightarrow>
     reachable chars (m\<lparr>sessions := Map_set (sessions m) sessionId s'\<rparr>)"

text \<open>
  The sweep's criterion for one session, and the invariant of the two maps: keys are held
  once, every code has \<open>JOIN_CODE_LENGTH\<close> characters of the alphabet and maps to a stored
  session, no two codes map to the same session, and every stored session has a code.
\<close>

definition expired :: "CleanupConfig \<Rightarrow> int \<Rightarrow> 'c session \<Rightarrow> bool" where
  "expired cfg now s =
     ((deleteWhenEmpty cfg \<and> participants s = []) \<or> now - updatedAt s > maxInactivity cfg)"

definition registry_inv :: "string \<Rightarrow> 'c SessionManager \<Rightarrow> bool" where
  "registry_inv chars m =
     (distinct (map fst (sessions m)) \<and>
      distinct (map fst (joinCodes m)) \<and>
      distinct (map snd (joinCodes m)) \<and>
      set (map snd (joinCodes m)) = set (map fst (sessions m)) \<and>
      list_all (\<lambda>(code, sid). length code = JOIN_CODE_LENGTH \<and> set code \<subseteq> set chars)
        (joinCodes m))"

text \<open>
  The correspondence between join codes and stored sessions: every code maps to a stored
  session, every stored session is the value of exactly one code, which \<open>getJoinCode\<close>
  returns, and \<open>getJoinCode\<close> returns \<open>null\<close> for an id that is not stored.
\<close>

definition codes_bijective :: "'c SessionManager \<Rightarrow> bool" where
  "codes_bijective m =
     ((\<forall>(code, sid) \<in> set (joinCodes m). Map_has (sessions m) sid) \<and>
      (\<forall>sid. Map_has (sessions m) sid \<longrightarrow>
         (\<exists>code. getJoinCode m sid = Some code \<and>
            (\<forall>code'. (Map_get (joinCodes m) code' = Some sid) = (code' = code)))) \<and>
      (\<forall>sid. \<not> Map_has (sessions m) sid \<longrightarrow> getJoinCode m sid = None))"

section \<open>Example states\<close>

text \<open>
  A concrete alphabet and the registry after one and after two calls of \<open>createSession\<close>;
  the second call draws the code of the first session again and retries.
\<close>

definition example_alphabet :: string where
  "example_alphabet = ''ABCDEFGHJKLMNPQRSTUVWXYZ23456789''"

definition example_manager0 :: "unit SessionManager" where
  "example_manager0 =
     SessionManager_new \<lparr>checkInterval_opt = None, maxInactivity_opt = None,
                         deleteWhenEmpty_opt = None\<rparr>"

definition example_host1 :: participant where
  "example_host1 =
     \<lparr>participant_id = ''p1'', participant_name = ''Alice'', isObserver = False,
      selectedValue = None\<rparr>"

definition example_session1 :: "unit session" where
  "example_session1 =
     \<lparr>session_id = ''s1'', session_name = ''Sprint 1'', hostId = ''p1'',
      participants = [example_host1], status = waiting, currentStory = None,
      currentDescription = None, config = None, createdAt = 1000, updatedAt = 1000\<rparr>"

definition example_manager1 :: "unit SessionManager" where
  "example_manager1 =
     \<lparr>sessions = [(''s1'', example_session1)], joinCodes = [(''ABCDEF'', ''s1'')],
      cleanupConfig = DEFAULT_CLEANUP_CONFIG, cleanupIntervalId = Some 7\<rparr>"

definition example_host2 :: participant where
  "example_host2 =
     \<lparr>participant_id = ''p2'', participant_name = ''Bob'', isObserver = False,
      selectedValue = None\<rparr>"

definition example_session2 :: "unit session" where
  "example_session2 =
     \<lparr>session_id = ''s2'', session_name = ''Sprint 2'', hostId = ''p2'',
      participants = [example_host2], status = waiting, currentStory = None,
      currentDescription = None, config = None, createdAt = 2000, updatedAt = 2000\<rparr>"

definition example_manager2 :: "unit SessionManager" where
  "example_manager2 =
     \<lparr>sessions = [(''s1'', example_session1), (''s2'', example_session2)],
      joinCodes = [(''ABCDEF'', ''s1''), (''GHJKLM'', ''s2'')],
      cleanupConfig = DEFAULT_CLEANUP_CONFIG, cleanupIntervalId = Some 7\<rparr>"

text \<open>
  A sweep time at which the first example session is idle longer than the default 30
  minutes and the second is not.
\<close>

definition example_sweep_time :: int where
  "example_sweep_time = 1801500"

section \<open>The voting result (components/VotingResult.vue)\<close>

text \<open>
  \<open>voters\<close>: \<open>props.participants.filter(p => !p.isObserver && p.selectedValue !== null)\<close>.
\<close>

definition voters :: "participant list \<Rightarrow> participant list" where
  "voters ps = filter (\<lambda>p. \<not> isObserver p \<and> selectedValue p \<noteq> None) ps"

text \<open>
  \<open>hasConsensus\<close>: false below two voters, false when \<open>voters[0]\<close> is undefined, otherwise
  \<open>voters.every(p => p.selectedValue === firstVote)\<close>.
\<close>

definition hasConsensus :: "participant list \<Rightarrow> bool" where
  "hasConsensus ps =
     (if length (voters ps) < 2 then False
      else (case voters ps of
              [] \<Rightarrow> False
            | firstVoter # _ \<Rightarrow>
                (let firstVote = selectedValue firstVoter
                 in list_all (\<lambda>p. selectedValue p = firstVote) (voters ps))))"

text \<open>
  The consensus predicate as the specification words it: every non-observer participant
  selected one and the same non-null value, and there are at least two of them.
\<close>

definition nonObservers :: "participant list \<Rightarrow> participant list" where
  "nonObservers ps = filter (\<lambda>p. \<not> isObserver p) ps"

definition spec_consensus :: "participant list \<Rightarrow> bool" where
  "spec_consensus ps =
     (2 \<le> length (nonObservers ps) \<and>
      (case nonObservers ps of
         [] \<Rightarrow> False
       | q # _ \<Rightarrow> selectedValue q \<noteq> None \<and>
                  list_all (\<lambda>p. selectedValue p = selectedValue q) (nonObservers ps)))"

definition mkParticipant :: "string \<Rightarrow> bool \<Rightarrow> string option \<Rightarrow> participant" where
  "mkParticipant n obs v =
     \<lparr>participant_id = n, participant_name = n, isObserver = obs, selectedValue = v\<rparr>"

definition consensus_example :: "participant list" where
  "consensus_example =
     [mkParticipant ''alice'' False (Some ''5''),
      mkParticipant ''bob'' False (Some ''5''),
      mkParticipant ''carol'' False None]"

section \<open>The real-time channel (useWebSocket)\<close>

text \<open>
  The module-level state of the composable. \<open>globalWs\<close> is the socket, represented by its
  \<open>readyState\<close>, or \<open>null\<close>. Timer handles are numbers. A handler is a function object and
  is represented by its identity; \<open>globalHandlers\<close> maps a message type to the set of the
  handlers registered for it.
\<close>

datatype ConnectionStatus = disconnected | connecting | connected | error

datatype ReadyState = CONNECTING | OPEN | CLOSING | CLOSED

datatype json =
    JNull
  | JBool bool
  | JNumber int
  | JString string
  | JArray "json list"
  | JObject "(string \<times> json) list"

type_synonym handler = nat

record WebSocketState =
  globalWs :: "ReadyState option"
  globalReconnectAttempts :: nat
  globalReconnectTimer :: "nat option"
  globalPingInterval :: "nat option"
  globalHandlers :: "(string \<times> handler list) list"
  globalStatus :: ConnectionStatus
  isInitialized :: bool

definition initialState :: WebSocketState where
  "initialState =
     \<lparr>globalWs = None, globalReconnectAttempts = 0, globalReconnectTimer = None,
      globalPingInterval = None, globalHandlers = [], globalStatus = disconnected,
      isInitialized = False\<rparr>"

text \<open>The options of one call of \<open>useWebSocket\<close>, with their defaults filled in.\<close>

record UseWebSocketOptions =
  autoConnect :: bool
  autoReconnect :: bool
  maxReconnectAttempts :: nat
  reconnectDelay :: int

definition defaultOptions :: UseWebSocketOptions where
  "defaultOptions =
     \<lparr>autoConnect = True, autoReconnect = True, maxReconnectAttempts = 5,
      reconnectDelay = 1000\<rparr>"

text \<open>
  What a call does to the world outside the module state: a frame handed to
  \<open>WebSocket.send\<close> (the value that is passed to \<open>JSON.stringify\<close>), a \<open>console.warn\<close>, a
  \<open>setTimeout\<close> of \<open>connect\<close> with its delay, a \<open>setInterval\<close> of the ping with its period,
  the cancellation of a timer, the construction and the closing of a socket, and the call
  of a handler with a payload. \<open>console.log\<close> and \<open>console.error\<close> are left out.
\<close>

datatype effect =
    Transmit json
  | Warn string
  | SetTimeout int
  | SetInterval int
  | ClearTimeout nat
  | ClearInterval nat
  | NewWebSocket
  | CloseWebSocket
  | Invoke handler json

definition cleanup :: "WebSocketState \<Rightarrow> WebSocketState \<times> effect list" where
  "cleanup st =
     (case globalPingInterval st of
        None \<Rightarrow> (st, [])
      | Some i \<Rightarrow> (st\<lparr>globalPingInterval := None\<rparr>, [ClearInterval i]))"

text \<open>
  \<open>send\<close>: a warning and nothing else unless the socket is there and \<open>OPEN\<close>; otherwise the
  envelope with \<open>timestamp: Date.now()\<close> is sent. \<open>now\<close> is the clock reading.
\<close>

definition envelope :: "string \<Rightarrow> json \<Rightarrow> int \<Rightarrow> json" where
  "envelope type payload now =
     JObject [(''type'', JString type), (''payload'', payload), (''timestamp'', JNumber now)]"

definition send :: "int \<Rightarrow> string \<Rightarrow> json \<Rightarrow> WebSocketState \<Rightarrow> WebSocketState \<times> effect list" where
  "send now type payload st =
     (if globalWs st \<noteq> Some OPEN
      then (st, [Warn ''[WebSocket] Cannot send message: not connected''])
      else (st, [Transmit (envelope type payload now)]))"

text \<open>
  \<open>connect\<close>. \<open>isClient\<close> is \<open>import.meta.client\<close>; \<open>throws\<close> says whether the \<open>WebSocket\<close>
  constructor throws. The handlers \<open>onopen\<close>, \<open>onmessage\<close>, \<open>onclose\<close> and \<open>onerror\<close> that
  \<open>connect\<close> installs are the functions below; \<open>pingId\<close> and \<open>timerId\<close> are the handles
  \<open>setInterval\<close> and \<open>setTimeout\<close> return. An inbound frame is given as the result of
  \<open>JSON.parse\<close>: the type and the payload, or \<open>None\<close> when parsing throws.
  \<open>onmessage\<close> follows the handler registration below, which it needs.
\<close>

definition connect :: "bool \<Rightarrow> bool \<Rightarrow> WebSocketState \<Rightarrow> WebSocketState \<times> effect list" where
  "connect isClient throws st =
     (if \<not> isClient then (st, [])
      else if globalWs st = Some OPEN then (st, [])
      else (let st1 = st\<lparr>globalStatus := connecting\<rparr>
            in if throws then (st1\<lparr>globalStatus := error\<rparr>, [])
               else (st1\<lparr>globalWs := Some CONNECTING\<rparr>, [NewWebSocket])))"

definition onopen :: "nat \<Rightarrow> WebSocketState \<Rightarrow> WebSocketState \<times> effect list" where
  "onopen pingId st =
     (st\<lparr>globalStatus := connected, globalReconnectAttempts := 0,
         globalPingInterval := Some pingId\<rparr>,
      [SetInterval 30000])"

definition pingTick :: "int \<Rightarrow> WebSocketState \<Rightarrow> WebSocketState \<times> effect list" where
  "pingTick now st =
     (if globalWs st = Some OPEN then send now ''ping'' (JObject []) st else (st, []))"

definition onclose ::
  "UseWebSocketOptions \<Rightarrow> nat \<Rightarrow> WebSocketState \<Rightarrow> WebSocketState \<times> effect list" where
  "onclose opts timerId st =
     (let (st1, cleared) = cleanup (st\<lparr>globalStatus := disconnected\<rparr>)
      in if autoReconnect opts \<and> globalReconnectAttempts st1 < maxReconnectAttempts opts
         then (let st2 = st1\<lparr>globalReconnectAttempts := globalReconnectAttempts st1 + 1\<rparr>;
                   delay = reconnectDelay opts * 2 ^ (globalReconnectAttempts st2 - 1)
               in (st2\<lparr>globalReconnectTimer := Some timerId\<rparr>, cleared @ [SetTimeout delay]))
         else (st1, cleared))"

definition onerror :: "WebSocketState \<Rightarrow> WebSocketState \<times> effect list" where
  "onerror st = (st\<lparr>globalStatus := error\<rparr>, [])"

definition disconnect :: "UseWebSocketOptions \<Rightarrow> WebSocketState \<Rightarrow> WebSocketState \<times> effect list" where
  "disconnect opts st =
     (let (st1, e1) =
            (case globalReconnectTimer st of
               None \<Rightarrow> (st, [])
             | Some t \<Rightarrow> (st\<lparr>globalReconnectTimer := None\<rparr>, [ClearTimeout t]));
          (st2, e2) = cleanup st1;
          st3 = st2\<lparr>globalReconnectAttempts := maxReconnectAttempts opts\<rparr>;
          (st4, e3) =
            (case globalWs st3 of
               None \<Rightarrow> (st3, [])
             | Some ws \<Rightarrow> (st3\<lparr>globalWs := None\<rparr>, [CloseWebSocket]))
      in (st4\<lparr>globalStatus := disconnected\<rparr>, e1 @ e2 @ e3))"

text \<open>
  \<open>on\<close> creates the set of the type when it is missing and adds the handler to it; the
  function it returns is \<open>unsubscribe\<close> with the same type and handler, which deletes the
  handler from the set of the type if there is one.
\<close>

definition on :: "string \<Rightarrow> handler \<Rightarrow> WebSocketState \<Rightarrow> WebSocketState" where
  "on type handler st =
     (let handlers1 = (if \<not> Map_has (globalHandlers st) type
                       then Map_set (globalHandlers st) type []
                       else globalHandlers st)
      in case Map_get handlers1 type of
           None \<Rightarrow> st\<lparr>globalHandlers := handlers1\<rparr>
         | Some typeHandlers \<Rightarrow>
             st\<lparr>globalHandlers := Map_set handlers1 type (Set_add typeHandlers handler)\<rparr>)"

definition unsubscribe :: "string \<Rightarrow> handler \<Rightarrow> WebSocketState \<Rightarrow> WebSocketState" where
  "unsubscribe type handler st =
     (case Map_get (globalHandlers st) type of
        None \<Rightarrow> st
      | Some typeHandlers \<Rightarrow>
          st\<lparr>globalHandlers := Map_set (globalHandlers st) type (Set_delete typeHandlers handler)\<rparr>)"

text \<open>The handlers registered for a type, in insertion order; none when the type has no set.\<close>

definition typeHandlers_of :: "WebSocketState \<Rightarrow> string \<Rightarrow> handler list" where
  "typeHandlers_of st type =
     (case Map_get (globalHandlers st) type of None \<Rightarrow> [] | Some hs \<Rightarrow> hs)"

text \<open>
  Handlers are functions the caller supplies. What one call of a handler does to the
  channel during a dispatch is given by its result: the calls of \<open>on\<close> and the
  unsubscribe functions its body makes, in order, and whether it throws. (The body of the
  wrapper that \<open>once\<close> registers is the wrapped handler followed by one such unsubscribe
  call.) A handler's calls of \<open>send\<close>, \<open>connect\<close> and \<open>disconnect\<close> neither read nor change
  the handler sets, and the dispatch touches nothing else, so they are events of their own.
\<close>

datatype registryCall = CallOn string handler | CallUnsubscribe string handler

record handlerResult =
  registryCalls :: "registryCall list"
  handlerThrows :: bool



text \<open>
  \<open>typeHandlers.forEach(handler => handler(payload))\<close>. A \<open>Set\<close> iterator visits the
  entries that are live when it reaches them: \<open>pending\<close> holds the entries after the
  iterator's position, an entry deleted during the dispatch is dropped from it, and an
  entry added during the dispatch (also one that was deleted before) is appended to it.
  \<open>results\<close> gives the results of the handler calls in the order they are made; calls
  beyond the list return without touching the registry. A handler that throws ends the
  iteration. The third component says whether the iteration ended by a throw.
\<close>

fun applyCall ::
  "string \<Rightarrow> registryCall \<Rightarrow> WebSocketState \<times> handler list \<Rightarrow> WebSocketState \<times> handler list" where
  "applyCall type (CallOn t handler) (st, pending) =
     (on t handler st,
      if t = type \<and> handler \<notin> set (typeHandlers_of st type) then pending @ [handler]
      else pending)"
| "applyCall type (CallUnsubscribe t handler) (st, pending) =
     (unsubscribe t handler st, if t = type then removeAll handler pending else pending)"

fun applyCalls ::
  "string \<Rightarrow> registryCall list \<Rightarrow> WebSocketState \<times> handler list \<Rightarrow> WebSocketState \<times> handler list" where
  "applyCalls type [] sp = sp"
| "applyCalls type (c # cs) sp = applyCalls type cs (applyCall type c sp)"

fun forEach ::
  "string \<Rightarrow> json \<Rightarrow> handlerResult list \<Rightarrow> handler list \<Rightarrow> WebSocketState
     \<Rightarrow> WebSocketState \<times> effect list \<times> bool" where
  "forEach type payload results [] st = (st, [], False)"
| "forEach type payload [] (handler # pending) st =
     (let (st1, effects, thrown) = forEach type payload [] pending st
      in (st1, Invoke handler payload # effects, thrown))"
| "forEach type payload (r # results) (handler # pending) st =
     (let (st1, pending1) = applyCalls type (registryCalls r) (st, pending)
      in if handlerThrows r then (st1, [Invoke handler payload], True)
         else (let (st2, effects, thrown) = forEach type payload results pending1 st1
               in (st2, Invoke handler payload # effects, thrown)))"

text \<open>
  \<open>emitEvent\<close> runs the iteration over the set of the type, if there is one.
  \<open>onmessage\<close> wraps parsing and dispatch in one \<open>try\<close>: a frame that does not parse
  (\<open>None\<close>) and a handler that throws both end in the \<open>catch\<close>, which only logs; what
  the handlers called before have done stays done.
\<close>

definition emitEvent ::
  "WebSocketState \<Rightarrow> string \<Rightarrow> json \<Rightarrow> handlerResult list
     \<Rightarrow> WebSocketState \<times> effect list \<times> bool" where
  "emitEvent st type payload results =
     (case Map_get (globalHandlers st) type of
        None \<Rightarrow> (st, [], False)
      | Some typeHandlers \<Rightarrow> forEach type payload results typeHandlers st)"

definition onmessage ::
  "(string \<times> json) option \<Rightarrow> handlerResult list \<Rightarrow> WebSocketState
     \<Rightarrow> WebSocketState \<times> effect list" where
  "onmessage message results st =
     (case message of
        None \<Rightarrow> (st, [])
      | Some (type, payload) \<Rightarrow>
          (let (st1, effects, thrown) = emitEvent st type payload results in (st1, effects)))"

text \<open>
  The events of the channel: the calls of the composable's functions and the callbacks of
  the browser. A message comes with the results of the handler calls of its dispatch.
  Before it calls \<open>onopen\<close> the browser has set the \<open>readyState\<close> of the socket
  to \<open>OPEN\<close>, before \<open>onclose\<close> to \<open>CLOSED\<close>. \<open>run\<close> takes the events in order and collects
  the effects.
\<close>

datatype event =
    Connect bool bool
  | Disconnect
  | Send int string json
  | On string handler
  | Unsubscribe string handler
  | SocketOpen nat
  | SocketMessage "(string \<times> json) option" "handlerResult list"
  | SocketClose nat
  | SocketError
  | PingTick int

definition setReadyState :: "ReadyState \<Rightarrow> WebSocketState \<Rightarrow> WebSocketState" where
  "setReadyState r st = st\<lparr>globalWs := map_option (\<lambda>ws. r) (globalWs st)\<rparr>"

fun step :: "UseWebSocketOptions \<Rightarrow> event \<Rightarrow> WebSocketState \<Rightarrow> WebSocketState \<times> effect list" where
  "step opts (Connect isClient throws) st = connect isClient throws st"
| "step opts Disconnect st = disconnect opts st"
| "step opts (Send now type payload) st = send now type payload st"
| "step opts (On type handler) st = (on type handler st, [])"
| "step opts (Unsubscribe type handler) st = (unsubscribe type handler st, [])"
| "step opts (SocketOpen pingId) st = onopen pingId (setReadyState OPEN st)"
| "step opts (SocketMessage message results) st = onmessage message results st"
| "step opts (SocketClose timerId) st = onclose opts timerId (setReadyState CLOSED st)"
| "step opts SocketError st = onerror st"
| "step opts (PingTick now) st = pingTick now st"

fun run :: "UseWebSocketOptions \<Rightarrow> event list \<Rightarrow> WebSocketState \<Rightarrow> WebSocketState \<times> effect list" where
  "run opts [] st = (st, [])"
| "run opts (ev # evs) st =
     (let (st1, e1) = step opts ev st; (st2, e2) = run opts evs st1 in (st2, e1 @ e2))"

text \<open>
  The delays of the reconnects an effect list schedules, the events that are not a
  successful connect, and the representation invariant of the handler sets (a \<open>Set\<close> holds
  every element once, a \<open>Map\<close> every key).
\<close>

fun scheduled :: "effect list \<Rightarrow> int list" where
  "scheduled [] = []"
| "scheduled (SetTimeout d # es) = d # scheduled es"
| "scheduled (e # es) = scheduled es"

fun isSocketOpen :: "event \<Rightarrow> bool" where
  "isSocketOpen (SocketOpen pingId) = True"
| "isSocketOpen ev = False"

fun transmitted :: "effect list \<Rightarrow> json list" where
  "transmitted [] = []"
| "transmitted (Transmit frame # es) = frame # transmitted es"
| "transmitted (e # es) = transmitted es"


text \<open>
  Example states: seven connection closes in a row, a channel that is connected, and a
  channel with two handlers for one message type.
\<close>

definition example_closes :: "event list" where
  "example_closes = map SocketClose [11, 12, 13, 14, 15, 16, 17]"

definition example_open :: WebSocketState where
  "example_open =
     fst (run defaultOptions [Connect True False, SocketOpen 21] initialState)"




chapter \<open>Properties\<close>

section \<open>Consensus in the voting result\<close>

lemma voters_voters [simp]: "voters (voters ps) = voters ps"
  by (simp add: voters_def)

lemma voters_nonObservers [simp]: "voters (nonObservers ps) = voters ps"
  by (simp add: voters_def nonObservers_def conj_commute)

lemma voters_Nil: "voters [] = []"
  by (simp add: voters_def)

lemma voters_append [simp]: "voters (ps @ qs) = voters ps @ voters qs"
  by (simp add: voters_def)

lemma voters_observer [simp]: "isObserver p \<Longrightarrow> voters (p # ps) = voters ps"
  by (simp add: voters_def)

lemma hasConsensus_iff:
  "hasConsensus ps \<longleftrightarrow>
     2 \<le> length (voters ps) \<and>
     (\<exists>v. \<forall>p \<in> set (voters ps). selectedValue p = Some v)"
proof (cases "voters ps")
  case Nil
  then show ?thesis by (simp add: hasConsensus_def)
next
  case (Cons q qs)
  have "q \<in> set (voters ps)" using Cons by simp
  then have "selectedValue q \<noteq> None" by (simp add: voters_def)
  then obtain w where w: "selectedValue q = Some w" by blast
  show ?thesis
    using Cons w by (auto simp: hasConsensus_def list_all_iff Suc_le_eq)
qed

text \<open>
  C6 (as stated): consensus holds exactly when all non-observer participants selected the
  identical non-null value and there are at least two of them. Refuted: with two equal votes
  and a third non-observer who has not voted yet, the component reports consensus although
  not all non-observer participants selected that value.
\<close>

theorem C6_counterexample:
  "hasConsensus consensus_example \<and> \<not> spec_consensus consensus_example"
  by (simp add: hasConsensus_def spec_consensus_def voters_def nonObservers_def
      consensus_example_def mkParticipant_def)

text \<open>
  C6 (amended): consensus holds exactly when at least two non-observer participants have
  voted (selected a non-null value) and all of those selected the identical value;
  participants who have not voted are ignored just like observers. It is false below two
  such voters, and observers never change it.
\<close>

theorem C6_hasConsensus_voters:
  "(hasConsensus ps \<longleftrightarrow>
      2 \<le> length (filter (\<lambda>p. \<not> isObserver p \<and> selectedValue p \<noteq> None) ps) \<and>
      (\<exists>v. \<forall>p \<in> set ps. \<not> isObserver p \<and> selectedValue p \<noteq> None \<longrightarrow> selectedValue p = Some v))
   \<and> (length (voters ps) < 2 \<longrightarrow> \<not> hasConsensus ps)
   \<and> hasConsensus (nonObservers ps) = hasConsensus ps
   \<and> (\<forall>ob. isObserver ob \<longrightarrow> hasConsensus (ps @ [ob]) = hasConsensus ps
                          \<and> hasConsensus (ob # ps) = hasConsensus ps)"
proof -
  have a: "hasConsensus ps \<longleftrightarrow>
      2 \<le> length (filter (\<lambda>p. \<not> isObserver p \<and> selectedValue p \<noteq> None) ps) \<and>
      (\<exists>v. \<forall>p \<in> set ps. \<not> isObserver p \<and> selectedValue p \<noteq> None \<longrightarrow> selectedValue p = Some v)"
    unfolding hasConsensus_iff by (auto simp: voters_def)
  have b: "length (voters ps) < 2 \<longrightarrow> \<not> hasConsensus ps"
    by (simp add: hasConsensus_def)
  have c: "hasConsensus (nonObservers ps) = hasConsensus ps"
    by (simp add: hasConsensus_iff)
  have d: "\<forall>ob. isObserver ob \<longrightarrow> hasConsensus (ps @ [ob]) = hasConsensus ps
                          \<and> hasConsensus (ob # ps) = hasConsensus ps"
    by (simp add: hasConsensus_iff voters_Nil)
  from a b c d show ?thesis by blast
qed

theorem C6_hasConsensus_voters_witness:
  "hasConsensus consensus_example
   \<and> hasConsensus (nonObservers consensus_example)
   \<and> hasConsensus (consensus_example @ [mkParticipant ''dave'' True (Some ''8'')])
   \<and> \<not> hasConsensus [mkParticipant ''alice'' False (Some ''5'')]"
proof -
  have ob: "isObserver (mkParticipant ''dave'' True (Some ''8''))"
    by (simp add: mkParticipant_def)
  have l: "length (voters [mkParticipant ''alice'' False (Some ''5'')]) < 2"
    by (simp add: voters_def)
  have h: "hasConsensus consensus_example"
    by (simp add: hasConsensus_def voters_def consensus_example_def mkParticipant_def)
  show ?thesis
    using C6_hasConsensus_voters [of consensus_example] ob h
      C6_hasConsensus_voters [of "[mkParticipant ''alice'' False (Some ''5'')]"] l
    by blast
qed

section \<open>Normalising join codes\<close>

lemma toUpperCase_char_upperAlnum: "upperAlnum c \<Longrightarrow> toUpperCase_char c = c"
  by (auto simp: upperAlnum_def toUpperCase_char_def Let_def)

lemma toUpperCase_upperAlnum: "list_all upperAlnum s \<Longrightarrow> toUpperCase s = s"
  by (induction s) (simp_all add: toUpperCase_def toUpperCase_char_upperAlnum)

lemma upperAlnum_not_white: "upperAlnum c \<Longrightarrow> \<not> isWhiteSpace c"
  by (auto simp: upperAlnum_def isWhiteSpace_def Let_def)

lemma dropWhile_white_upperAlnum: "list_all upperAlnum s \<Longrightarrow> dropWhile isWhiteSpace s = s"
  by (cases s) (simp_all add: upperAlnum_not_white)

lemma trim_upperAlnum: "list_all upperAlnum s \<Longrightarrow> trim s = s"
proof -
  assume a: "list_all upperAlnum s"
  then have "list_all upperAlnum (rev s)" by (simp add: list_all_iff)
  then show ?thesis using a by (simp add: trim_def dropWhile_white_upperAlnum)
qed

section \<open>Join code generation\<close>

lemma codeLoop_eq: "codeLoop chars rs code = code @ concat (map (charAt chars) rs)"
  by (induction rs arbitrary: code) simp_all

lemma set_charAt: "set (charAt chars r) \<subseteq> set chars"
  by (auto simp: charAt_def)

lemma set_codeLoop: "set (codeLoop chars rs []) \<subseteq> set chars"
  using set_charAt by (fastforce simp: codeLoop_eq)

lemma length_codeLoop:
  "\<forall>r \<in> set rs. r < length chars \<Longrightarrow> length (codeLoop chars rs []) = length rs"
  by (induction rs) (simp_all add: codeLoop_eq charAt_def)

lemma generateJoinCode_Some:
  "generateJoinCode chars jc rs = Some (code, rest) \<Longrightarrow>
     \<not> Map_has jc code \<and> set code \<subseteq> set chars \<and>
     ((\<forall>r \<in> set rs. r < length chars) \<longrightarrow> length code = JOIN_CODE_LENGTH)"
proof (induction chars jc rs rule: generateJoinCode.induct)
  case (1 chars jc rs)
  show ?case
  proof (cases "length rs < JOIN_CODE_LENGTH")
    case True
    with "1.prems" show ?thesis by (simp add: generateJoinCode.simps[of chars jc rs])
  next
    case False
    let ?c = "codeLoop chars (take JOIN_CODE_LENGTH rs) []"
    show ?thesis
    proof (cases "Map_has jc ?c")
      case True
      with False "1.prems" have "generateJoinCode chars jc (drop JOIN_CODE_LENGTH rs) = Some (code, rest)"
        by (simp add: generateJoinCode.simps[of chars jc rs] Let_def)
      from "1.IH"[OF False refl True this] show ?thesis
        by (auto dest: in_set_dropD)
    next
      case nh: False
      with False "1.prems" have c: "code = ?c"
        by (simp add: generateJoinCode.simps[of chars jc rs] Let_def)
      have "(\<forall>r \<in> set rs. r < length chars) \<longrightarrow> length ?c = JOIN_CODE_LENGTH"
      proof
        assume "\<forall>r \<in> set rs. r < length chars"
        then have "\<forall>r \<in> set (take JOIN_CODE_LENGTH rs). r < length chars"
          by (auto dest: in_set_takeD)
        from length_codeLoop[OF this] False show "length ?c = JOIN_CODE_LENGTH" by simp
      qed
      with nh c set_codeLoop[of chars "take JOIN_CODE_LENGTH rs"] show ?thesis by simp
    qed
  qed
qed

text \<open>
  The function returns as soon as a block of draws gives a code that is not stored: a
  stored code costs one block of draws, an unused one ends the recursion, and
  \<open>createSession\<close> returns whenever the first block is unused.
\<close>

lemma generateJoinCode_unused:
  "JOIN_CODE_LENGTH \<le> length rs \<Longrightarrow>
   \<not> Map_has jc (codeLoop chars (take JOIN_CODE_LENGTH rs) []) \<Longrightarrow>
   generateJoinCode chars jc rs =
     Some (codeLoop chars (take JOIN_CODE_LENGTH rs) [], drop JOIN_CODE_LENGTH rs)"
  by (simp add: generateJoinCode.simps[of chars jc rs] Let_def)

lemma generateJoinCode_retry:
  "JOIN_CODE_LENGTH \<le> length rs \<Longrightarrow>
   Map_has jc (codeLoop chars (take JOIN_CODE_LENGTH rs) []) \<Longrightarrow>
   generateJoinCode chars jc rs = generateJoinCode chars jc (drop JOIN_CODE_LENGTH rs)"
  by (simp add: generateJoinCode.simps[of chars jc rs] Let_def)

lemma createSession_returns:
  assumes "JOIN_CODE_LENGTH \<le> length rs"
    and "\<not> Map_has (joinCodes m) (codeLoop chars (take JOIN_CODE_LENGTH rs) [])"
  shows "\<exists>res m'. createSession chars m name hostName cfg hid sid now tid rs = Some (res, m')"
  using generateJoinCode_unused[OF assms]
  by (simp add: createSession_def Let_def)

section \<open>The invariant of the registry\<close>

lemma update_fresh: "k \<notin> fst ` set al \<Longrightarrow> AList.update k v al = al @ [(k, v)]"
  by (induction al) auto

lemma update_present_keys: "k \<in> fst ` set al \<Longrightarrow> map fst (AList.update k v al) = map fst al"
  by (simp add: update_keys)

lemma delete_filter_fst: "AList.delete k al = filter (\<lambda>e. fst e \<noteq> k) al"
  by (auto simp: AList.delete_eq intro: filter_cong)

lemma getJoinCode_loop_Some: "getJoinCode_loop es sid = Some c \<Longrightarrow> (c, sid) \<in> set es"
  by (induction es sid rule: getJoinCode_loop.induct) (auto split: if_splits)

lemma getJoinCode_loop_None: "getJoinCode_loop es sid = None \<longleftrightarrow> sid \<notin> snd ` set es"
  by (induction es sid rule: getJoinCode_loop.induct) auto

lemma getJoinCode_loop_unique:
  "distinct (map snd es) \<Longrightarrow> (c, sid) \<in> set es \<Longrightarrow> getJoinCode_loop es sid = Some c"
  by (induction es sid rule: getJoinCode_loop.induct) (auto simp: image_iff)

lemma releaseJoinCode_eq:
  "releaseJoinCode es sid jc =
     (case getJoinCode_loop es sid of None \<Rightarrow> jc | Some c \<Rightarrow> AList.delete c jc)"
  by (induction es sid jc rule: releaseJoinCode.induct) auto

lemma delete_by_value:
  assumes "distinct (map fst jc)" and "distinct (map snd jc)" and "(c, sid) \<in> set jc"
  shows "AList.delete c jc = filter (\<lambda>e. snd e \<noteq> sid) jc"
proof -
  have i1: "inj_on fst (set jc)" and i2: "inj_on snd (set jc)"
    using assms by (simp_all add: distinct_map)
  have "a \<noteq> c \<longleftrightarrow> b \<noteq> sid" if "(a, b) \<in> set jc" for a b
    using inj_onD[OF i1, of "(a, b)" "(c, sid)"] inj_onD[OF i2, of "(a, b)" "(c, sid)"]
      that assms(3)
    by auto
  then show ?thesis unfolding delete_filter_fst by (intro filter_cong) auto
qed

lemma sessions_deleteSession:
  "sessions (snd (deleteSession m sid)) = AList.delete sid (sessions m)"
  by (auto simp: deleteSession_def stopCleanup_def Let_def map_of_eq_None_iff
      split: option.splits)

lemma cleanupConfig_deleteSession:
  "cleanupConfig (snd (deleteSession m sid)) = cleanupConfig m"
  by (auto simp: deleteSession_def stopCleanup_def Let_def split: option.splits)

lemma joinCodes_deleteSession:
  "joinCodes (snd (deleteSession m sid)) =
     (if Map_has (sessions m) sid then releaseJoinCode (joinCodes m) sid (joinCodes m)
      else joinCodes m)"
proof (cases "Map_get (sessions m) sid")
  case None
  then have "\<not> Map_has (sessions m) sid" by (simp add: map_of_eq_None_iff)
  with None show ?thesis by (simp add: deleteSession_def)
next
  case (Some s)
  then have "Map_has (sessions m) sid" by (metis map_of_eq_None_iff option.distinct(1))
  with Some show ?thesis by (simp add: deleteSession_def stopCleanup_def Let_def)
qed

lemma registry_inv_cong:
  "sessions m' = sessions m \<Longrightarrow> joinCodes m' = joinCodes m \<Longrightarrow>
   registry_inv chars m' = registry_inv chars m"
  by (simp add: registry_inv_def)

lemma joinCodes_deleteSession_inv:
  assumes "registry_inv chars m"
  shows "joinCodes (snd (deleteSession m sid)) = filter (\<lambda>e. snd e \<noteq> sid) (joinCodes m)"
proof (cases "Map_has (sessions m) sid")
  case True
  with assms have "sid \<in> snd ` set (joinCodes m)" by (simp add: registry_inv_def)
  then obtain c where c: "(c, sid) \<in> set (joinCodes m)" by auto
  with assms have "getJoinCode_loop (joinCodes m) sid = Some c"
    by (simp add: registry_inv_def getJoinCode_loop_unique)
  with True c assms show ?thesis
    by (simp add: joinCodes_deleteSession releaseJoinCode_eq delete_by_value registry_inv_def)
next
  case False
  with assms have "sid \<notin> snd ` set (joinCodes m)" by (simp add: registry_inv_def)
  then have "filter (\<lambda>e. snd e \<noteq> sid) (joinCodes m) = joinCodes m"
    by (auto simp: filter_id_conv)
  with False show ?thesis by (simp add: joinCodes_deleteSession)
qed

lemma inv_deleteSession:
  assumes "registry_inv chars m"
  shows "registry_inv chars (snd (deleteSession m sid))"
proof -
  let ?m' = "snd (deleteSession m sid)"
  have s: "sessions ?m' = filter (\<lambda>e. fst e \<noteq> sid) (sessions m)"
    by (simp add: sessions_deleteSession delete_filter_fst)
  have j: "joinCodes ?m' = filter (\<lambda>e. snd e \<noteq> sid) (joinCodes m)"
    by (rule joinCodes_deleteSession_inv[OF assms])
  have 1: "distinct (map fst (sessions ?m'))"
    using assms unfolding s by (simp add: registry_inv_def distinct_map_filter)
  have 2: "distinct (map fst (joinCodes ?m'))"
    using assms unfolding j by (simp add: registry_inv_def distinct_map_filter)
  have 3: "distinct (map snd (joinCodes ?m'))"
    using assms unfolding j by (simp add: registry_inv_def distinct_map_filter)
  have "snd ` set (joinCodes m) = fst ` set (sessions m)"
    using assms by (simp add: registry_inv_def)
  then have 4: "set (map snd (joinCodes ?m')) = set (map fst (sessions ?m'))"
    unfolding s j by (auto simp: image_iff)
  have 5: "list_all (\<lambda>(code, sid). length code = JOIN_CODE_LENGTH \<and> set code \<subseteq> set chars)
        (joinCodes ?m')"
    using assms unfolding j by (simp add: registry_inv_def list_all_iff)
  from 1 2 3 4 5 show ?thesis unfolding registry_inv_def by blast
qed

lemma inv_update_session:
  assumes "registry_inv chars m" and "Map_has (sessions m) k"
  shows "registry_inv chars (m\<lparr>sessions := Map_set (sessions m) k s'\<rparr>)"
  using assms by (simp add: registry_inv_def update_present_keys)

lemma inv_startCleanup: "registry_inv chars (startCleanup tid m) = registry_inv chars m"
  by (rule registry_inv_cong) (simp_all add: startCleanup_def)

lemma inv_stopCleanup: "registry_inv chars (stopCleanup m) = registry_inv chars m"
  by (rule registry_inv_cong) (simp_all add: stopCleanup_def)

lemma inv_new: "registry_inv chars (SessionManager_new cfg)"
  by (simp add: registry_inv_def SessionManager_new_def)

lemma session_id_addParticipant: "session_id (snd (addParticipant now p s)) = session_id s"
  by (simp add: addParticipant_def)

lemma createSession_SomeD:
  assumes "createSession chars m name hostName cfg hid sid now tid rs = Some ((s, h, code), m')"
  shows "\<exists>rest. generateJoinCode chars (joinCodes m) rs = Some (code, rest)"
    and "session_id s = sid"
    and "s = snd (addParticipant now (Participant_new hid hostName False)
                   (Session_new sid now name hid cfg))"
    and "h = Participant_new hid hostName False"
    and "sessions m' = Map_set (sessions m) sid s"
    and "joinCodes m' = Map_set (joinCodes m) code sid"
    and "cleanupConfig m' = cleanupConfig m"
    and "cleanupIntervalId m' = Some (case cleanupIntervalId m of None \<Rightarrow> tid | Some t \<Rightarrow> t)"
  using assms
  by (auto simp: createSession_def Let_def startCleanup_def session_id_addParticipant
      Session_new_def Participant_new_def addParticipant_def split: option.splits)

lemma inv_createSession:
  assumes inv: "registry_inv chars m"
    and fresh: "\<not> Map_has (sessions m) sid"
    and draws: "\<forall>r \<in> set rs. r < length chars"
    and cr: "createSession chars m name hostName cfg hid sid now tid rs = Some (res, m')"
  shows "registry_inv chars m'"
proof -
  obtain s h code where res: "res = (s, h, code)" by (cases res) auto
  note d = createSession_SomeD[OF cr[unfolded res]]
  from d(1) obtain rest where g: "generateJoinCode chars (joinCodes m) rs = Some (code, rest)" ..
  from generateJoinCode_Some[OF g] draws
  have c: "\<not> Map_has (joinCodes m) code" "set code \<subseteq> set chars" "length code = JOIN_CODE_LENGTH"
    by auto
  have s': "sessions m' = sessions m @ [(sid, s)]"
    using d(5) fresh by (simp add: update_fresh)
  have j': "joinCodes m' = joinCodes m @ [(code, sid)]"
    using d(6) c(1) by (simp add: update_fresh)
  show ?thesis
    using inv fresh c unfolding registry_inv_def s' j' by auto
qed

lemma getSessionByJoinCode_SomeD:
  "getSessionByJoinCode m joinCode = Some s \<Longrightarrow>
     \<exists>sid. Map_get (joinCodes m) (trim (toUpperCase joinCode)) = Some sid \<and>
           Map_get (sessions m) sid = Some s"
  by (auto simp: getSessionByJoinCode_def Let_def split: option.splits if_splits)

lemma map_of_Some_has: "map_of al k = Some v \<Longrightarrow> k \<in> fst ` set al"
  by (metis map_of_eq_None_iff option.distinct(1))

lemma inv_joinSession:
  assumes "registry_inv chars m"
  shows "registry_inv chars (snd (joinSession m joinCode pname asObserver pid now))"
proof (cases "getSessionByJoinCode m joinCode")
  case None
  with assms show ?thesis by (simp add: joinSession_def)
next
  case (Some s)
  from getSessionByJoinCode_SomeD[OF Some] obtain sid where
    sid: "Map_get (joinCodes m) (trim (toUpperCase joinCode)) = Some sid"
      "Map_get (sessions m) sid = Some s" by blast
  then have "Map_has (sessions m) sid" by (simp add: map_of_Some_has)
  from inv_update_session[OF assms this] Some sid show ?thesis
    by (simp add: joinSession_def Let_def split: prod.splits)
qed

lemma inv_cleanupIfEmpty:
  "registry_inv chars m \<Longrightarrow> registry_inv chars (cleanupIfEmpty m sid)"
  by (simp add: cleanupIfEmpty_def inv_deleteSession split: option.splits)

lemma inv_leaveSession:
  assumes "registry_inv chars m"
  shows "registry_inv chars (snd (leaveSession m sid pid now))"
proof (cases "Map_get (sessions m) sid")
  case None
  with assms show ?thesis by (simp add: leaveSession_def)
next
  case (Some s)
  then have "Map_has (sessions m) sid" by (simp add: map_of_Some_has)
  from inv_update_session[OF assms this] Some show ?thesis
    by (simp add: leaveSession_def Let_def inv_cleanupIfEmpty split: prod.splits)
qed

lemma inv_sweep: "registry_inv chars m \<Longrightarrow> registry_inv chars (sweep now es m)"
  by (induction now es m rule: sweep.induct) (simp_all add: Let_def inv_deleteSession)

lemma inv_performCleanup: "registry_inv chars m \<Longrightarrow> registry_inv chars (performCleanup now m)"
  by (simp add: performCleanup_def inv_sweep)

lemma reachable_inv: "reachable chars m \<Longrightarrow> registry_inv chars m"
proof (induction rule: reachable.induct)
  case (reach_new cfg)
  show ?case by (rule inv_new)
next
  case (reach_createSession m sid rs name hostName cfg hid now tid res m')
  then show ?case by (blast intro: inv_createSession)
next
  case (reach_sessionMethod m sessionId s s')
  then show ?case by (simp add: inv_update_session map_of_Some_has)
qed (simp_all add: inv_joinSession inv_leaveSession inv_deleteSession inv_performCleanup
      inv_startCleanup inv_stopCleanup)

section \<open>Lookups after creation\<close>

lemma example_alphabet_valid: "validAlphabet example_alphabet"
  by code_simp

lemma example_create1:
  "createSession example_alphabet example_manager0 ''Sprint 1'' ''Alice'' None
     ''p1'' ''s1'' 1000 7 [0, 1, 2, 3, 4, 5]
   = Some ((example_session1, example_host1, ''ABCDEF''), example_manager1)"
  by code_simp

lemma example_create2:
  "createSession example_alphabet example_manager1 ''Sprint 2'' ''Bob'' None
     ''p2'' ''s2'' 2000 8 [0, 1, 2, 3, 4, 5, 6, 7, 8, 9, 10, 11]
   = Some ((example_session2, example_host2, ''GHJKLM''), example_manager2)"
  by code_simp

lemma example_reachable1: "reachable example_alphabet example_manager1"
proof -
  have 0: "reachable example_alphabet example_manager0"
    unfolding example_manager0_def by (rule reach_new)
  have f: "\<not> Map_has (sessions example_manager0) ''s1''"
    by (simp add: example_manager0_def SessionManager_new_def)
  have d: "\<forall>r \<in> set [0, 1, 2, 3, 4, 5]. r < length example_alphabet"
    by (simp add: example_alphabet_def)
  from reach_createSession[OF 0 f d example_create1] show ?thesis .
qed

lemma example_reachable2: "reachable example_alphabet example_manager2"
proof -
  have f: "\<not> Map_has (sessions example_manager1) ''s2''"
    by (simp add: example_manager1_def)
  have d: "\<forall>r \<in> set [0, 1, 2, 3, 4, 5, 6, 7, 8, 9, 10, 11]. r < length example_alphabet"
    by (simp add: example_alphabet_def)
  from reach_createSession[OF example_reachable1 f d example_create2] show ?thesis .
qed

lemma validAlphabet_code:
  "validAlphabet chars \<Longrightarrow> set code \<subseteq> set chars \<Longrightarrow> trim (toUpperCase code) = code"
proof -
  assume "validAlphabet chars" "set code \<subseteq> set chars"
  then have "list_all upperAlnum code" by (auto simp: validAlphabet_def list_all_iff)
  then show ?thesis by (simp add: toUpperCase_upperAlnum trim_upperAlnum)
qed

text \<open>
  C1: for every session that \<open>createSession\<close> returns together with its join code,
  \<open>getSessionByJoinCode\<close> with that code returns the session right afterwards, and so does
  \<open>getSessionById\<close> with the session's id. The alphabet is upper-case alphanumeric, as
  the spec says, and the generated session id is not the empty string.
\<close>

theorem C1_lookup_after_create:
  assumes "validAlphabet chars" and "sid \<noteq> []"
    and "createSession chars m name hostName cfg hid sid now tid rs
           = Some ((session, host, joinCode), m')"
  shows "getSessionByJoinCode m' joinCode = Some session \<and>
         getSessionById m' (session_id session) = Some session"
proof -
  note d = createSession_SomeD[OF assms(3)]
  from d(1) obtain rest where "generateJoinCode chars (joinCodes m) rs = Some (joinCode, rest)" ..
  from generateJoinCode_Some[OF this] have "set joinCode \<subseteq> set chars" by simp
  with assms(1) have n: "trim (toUpperCase joinCode) = joinCode" by (rule validAlphabet_code)
  have j: "Map_get (joinCodes m') joinCode = Some sid" by (simp add: d(6) update_conv')
  have s: "Map_get (sessions m') sid = Some session" by (simp add: d(5) update_conv')
  from n j s assms(2) d(2) show ?thesis
    by (simp add: getSessionByJoinCode_def getSessionById_def)
qed

theorem C1_lookup_after_create_witness:
  "validAlphabet example_alphabet \<and>
   createSession example_alphabet example_manager0 ''Sprint 1'' ''Alice'' None
     ''p1'' ''s1'' 1000 7 [0, 1, 2, 3, 4, 5]
     = Some ((example_session1, example_host1, ''ABCDEF''), example_manager1) \<and>
   getSessionByJoinCode example_manager1 ''ABCDEF'' = Some example_session1 \<and>
   getSessionById example_manager1 (session_id example_session1) = Some example_session1"
proof -
  have n: "''s1'' \<noteq> []" by simp
  from C1_lookup_after_create[OF example_alphabet_valid n example_create1]
    example_alphabet_valid example_create1
  show ?thesis by simp
qed

section \<open>Join codes of reachable states\<close>

lemma map_of_mem_distinct:
  "distinct (map fst al) \<Longrightarrow> (map_of al k = Some v) = ((k, v) \<in> set al)"
  by (auto dest: map_of_SomeD intro: map_of_is_SomeI)

lemma getJoinCode_loop_iff:
  "distinct (map snd es) \<Longrightarrow> (getJoinCode_loop es sid = Some c) = ((c, sid) \<in> set es)"
  by (auto dest: getJoinCode_loop_Some intro: getJoinCode_loop_unique)

lemma inv_getJoinCode_lookup:
  assumes "registry_inv chars m"
  shows "(getJoinCode m sid = Some code) = (Map_get (joinCodes m) code = Some sid)"
  using assms
  by (simp add: registry_inv_def getJoinCode_def getJoinCode_loop_iff map_of_mem_distinct)

lemma inv_getJoinCode_live:
  assumes "registry_inv chars m"
  shows "(getJoinCode m sid = None) = (\<not> Map_has (sessions m) sid)"
  using assms by (simp add: registry_inv_def getJoinCode_def getJoinCode_loop_None)

lemma inv_code_shape:
  assumes "registry_inv chars m" and "(code, sid) \<in> set (joinCodes m)"
  shows "length code = JOIN_CODE_LENGTH \<and> set code \<subseteq> set chars"
  using assms by (auto simp: registry_inv_def list_all_iff)

text \<open>
  C2: at every reachable state of the registry every stored join code has exactly
  \<open>JOIN_CODE_LENGTH\<close> (6) characters, all from \<open>JOIN_CODE_CHARS\<close> (and is its own upper-case
  form when the alphabet is upper-case alphanumeric); the codes are held once; two different
  stored sessions have different join codes; and the code \<open>createSession\<close> generates is
  never one that is already stored.
\<close>

theorem C2_join_codes:
  assumes "reachable chars m"
  shows "(\<forall>(code, sid) \<in> set (joinCodes m).
            length code = 6 \<and> length code = JOIN_CODE_LENGTH \<and> set code \<subseteq> set chars \<and>
            (validAlphabet chars \<longrightarrow> toUpperCase code = code))
       \<and> distinct (map fst (joinCodes m))
       \<and> (\<forall>s1 s2. Map_has (sessions m) s1 \<and> Map_has (sessions m) s2 \<and> s1 \<noteq> s2 \<longrightarrow>
             getJoinCode m s1 \<noteq> None \<and> getJoinCode m s2 \<noteq> None \<and>
             getJoinCode m s1 \<noteq> getJoinCode m s2)
       \<and> (\<forall>name hostName cfg hid sid now tid rs s h code m'.
             createSession chars m name hostName cfg hid sid now tid rs = Some ((s, h, code), m')
             \<longrightarrow> \<not> Map_has (joinCodes m) code)"
proof -
  have inv: "registry_inv chars m" using assms by (rule reachable_inv)
  have a: "\<forall>(code, sid) \<in> set (joinCodes m).
            length code = 6 \<and> length code = JOIN_CODE_LENGTH \<and> set code \<subseteq> set chars \<and>
            (validAlphabet chars \<longrightarrow> toUpperCase code = code)"
  proof (clarify, intro conjI impI)
    fix code sid assume mem: "(code, sid) \<in> set (joinCodes m)"
    from inv_code_shape[OF inv mem]
    show "length code = JOIN_CODE_LENGTH" "set code \<subseteq> set chars" "length code = 6"
      by (simp_all add: JOIN_CODE_LENGTH_def)
    assume "validAlphabet chars"
    with \<open>set code \<subseteq> set chars\<close> have "list_all upperAlnum code"
      by (auto simp: validAlphabet_def list_all_iff)
    then show "toUpperCase code = code" by (rule toUpperCase_upperAlnum)
  qed
  have b: "distinct (map fst (joinCodes m))" using inv by (simp add: registry_inv_def)
  have c: "\<forall>s1 s2. Map_has (sessions m) s1 \<and> Map_has (sessions m) s2 \<and> s1 \<noteq> s2 \<longrightarrow>
             getJoinCode m s1 \<noteq> None \<and> getJoinCode m s2 \<noteq> None \<and>
             getJoinCode m s1 \<noteq> getJoinCode m s2"
  proof (intro allI impI)
    fix s1 s2 assume h: "Map_has (sessions m) s1 \<and> Map_has (sessions m) s2 \<and> s1 \<noteq> s2"
    then have n1: "getJoinCode m s1 \<noteq> None" and n2: "getJoinCode m s2 \<noteq> None"
      by (simp_all add: inv_getJoinCode_live[OF inv])
    then obtain c1 c2 where c: "getJoinCode m s1 = Some c1" "getJoinCode m s2 = Some c2"
      by auto
    then have "Map_get (joinCodes m) c1 = Some s1" "Map_get (joinCodes m) c2 = Some s2"
      by (simp_all add: inv_getJoinCode_lookup[OF inv])
    moreover from h have "s1 \<noteq> s2" by simp
    ultimately have "c1 \<noteq> c2" by auto
    with n1 n2 c show "getJoinCode m s1 \<noteq> None \<and> getJoinCode m s2 \<noteq> None \<and>
             getJoinCode m s1 \<noteq> getJoinCode m s2" by simp
  qed
  have d: "\<forall>name hostName cfg hid sid now tid rs s h code m'.
             createSession chars m name hostName cfg hid sid now tid rs = Some ((s, h, code), m')
             \<longrightarrow> \<not> Map_has (joinCodes m) code"
  proof (intro allI impI)
    fix name hostName cfg hid sid now tid rs s h code m'
    assume "createSession chars m name hostName cfg hid sid now tid rs = Some ((s, h, code), m')"
    from createSession_SomeD(1)[OF this] obtain rest
      where "generateJoinCode chars (joinCodes m) rs = Some (code, rest)" ..
    from generateJoinCode_Some[OF this] show "\<not> Map_has (joinCodes m) code" by simp
  qed
  from a b c d show ?thesis by blast
qed

theorem C2_join_codes_witness:
  "reachable example_alphabet example_manager2 \<and>
   joinCodes example_manager2 = [(''ABCDEF'', ''s1''), (''GHJKLM'', ''s2'')] \<and>
   length ''GHJKLM'' = JOIN_CODE_LENGTH \<and> set ''GHJKLM'' \<subseteq> set example_alphabet \<and>
   toUpperCase ''GHJKLM'' = ''GHJKLM'' \<and>
   distinct (map fst (joinCodes example_manager2)) \<and>
   getJoinCode example_manager2 ''s1'' \<noteq> getJoinCode example_manager2 ''s2'' \<and>
   \<not> Map_has (joinCodes example_manager1) ''GHJKLM''"
proof -
  have j: "joinCodes example_manager2 = [(''ABCDEF'', ''s1''), (''GHJKLM'', ''s2'')]"
    by (simp add: example_manager2_def)
  have l: "Map_has (sessions example_manager2) ''s1'' \<and>
           Map_has (sessions example_manager2) ''s2'' \<and> ''s1'' \<noteq> ''s2''"
    by (simp add: example_manager2_def)
  have mem: "(''GHJKLM'', ''s2'') \<in> set (joinCodes example_manager2)"
    by (simp add: j)
  note t2 = C2_join_codes[OF example_reachable2]
  note t1 = C2_join_codes[OF example_reachable1]
  from bspec[OF t2[THEN conjunct1] mem] example_alphabet_valid
  have a: "length ''GHJKLM'' = JOIN_CODE_LENGTH \<and> set ''GHJKLM'' \<subseteq> set example_alphabet \<and>
      toUpperCase ''GHJKLM'' = ''GHJKLM''" by simp
  from t2 have b: "distinct (map fst (joinCodes example_manager2))" by (elim conjE)
  from t2[THEN conjunct2, THEN conjunct2, THEN conjunct1, rule_format, OF l]
  have c: "getJoinCode example_manager2 ''s1'' \<noteq> getJoinCode example_manager2 ''s2''"
    by (elim conjE)
  from t1[THEN conjunct2, THEN conjunct2, THEN conjunct2, rule_format, OF example_create2]
  have d: "\<not> Map_has (joinCodes example_manager1) ''GHJKLM''" .
  from example_reachable2 j a b c d show ?thesis by (intro conjI) (elim conjE, assumption)+
qed

section \<open>The correspondence between codes and sessions\<close>

lemma inv_codes_bijective:
  assumes inv: "registry_inv chars m"
  shows "codes_bijective m"
proof -
  have a: "\<forall>(code, sid) \<in> set (joinCodes m). Map_has (sessions m) sid"
  proof clarify
    fix code sid assume "(code, sid) \<in> set (joinCodes m)"
    then have "sid \<in> set (map snd (joinCodes m))" by force
    with inv show "Map_has (sessions m) sid" by (simp add: registry_inv_def)
  qed
  have b: "\<forall>sid. Map_has (sessions m) sid \<longrightarrow>
         (\<exists>code. getJoinCode m sid = Some code \<and>
            (\<forall>code'. (Map_get (joinCodes m) code' = Some sid) = (code' = code)))"
  proof (intro allI impI)
    fix sid assume "Map_has (sessions m) sid"
    then have "getJoinCode m sid \<noteq> None" by (simp add: inv_getJoinCode_live[OF inv])
    then obtain code where c: "getJoinCode m sid = Some code" by auto
    have "(Map_get (joinCodes m) code' = Some sid) = (code' = code)" for code'
      using c inv_getJoinCode_lookup[OF inv, of sid code'] by auto
    with c show "\<exists>code. getJoinCode m sid = Some code \<and>
            (\<forall>code'. (Map_get (joinCodes m) code' = Some sid) = (code' = code))" by blast
  qed
  have c: "\<forall>sid. \<not> Map_has (sessions m) sid \<longrightarrow> getJoinCode m sid = None"
    by (simp add: inv_getJoinCode_live[OF inv])
  from a b c show ?thesis unfolding codes_bijective_def by (intro conjI)
qed

text \<open>
  C9: at every reachable state \<open>joinCodes\<close> is a bijection between the stored codes and
  the ids of the stored sessions, \<open>getJoinCode\<close> returns the one code of a stored session
  and \<open>null\<close> for any other id; \<open>createSession\<close> (with a new session id),
  \<open>leaveSession\<close>, \<open>deleteSession\<close> and the sweep each lead to a state where this holds.
\<close>

theorem C9_join_codes_bijection:
  assumes "reachable chars m"
  shows "codes_bijective m
       \<and> (\<forall>name hostName cfg hid sid now tid rs res m'.
            \<not> Map_has (sessions m) sid \<and> (\<forall>r \<in> set rs. r < length chars) \<and>
            createSession chars m name hostName cfg hid sid now tid rs = Some (res, m')
            \<longrightarrow> codes_bijective m')
       \<and> (\<forall>sid pid now. codes_bijective (snd (leaveSession m sid pid now)))
       \<and> (\<forall>sid. codes_bijective (snd (deleteSession m sid)))
       \<and> (\<forall>now. codes_bijective (performCleanup now m))"
proof -
  have inv: "registry_inv chars m" using assms by (rule reachable_inv)
  have a: "codes_bijective m" using inv by (rule inv_codes_bijective)
  have b: "\<forall>name hostName cfg hid sid now tid rs res m'.
            \<not> Map_has (sessions m) sid \<and> (\<forall>r \<in> set rs. r < length chars) \<and>
            createSession chars m name hostName cfg hid sid now tid rs = Some (res, m')
            \<longrightarrow> codes_bijective m'"
  proof (intro allI impI, elim conjE)
    fix name hostName cfg hid sid now tid rs res m'
    assume "\<not> Map_has (sessions m) sid" "\<forall>r \<in> set rs. r < length chars"
      "createSession chars m name hostName cfg hid sid now tid rs = Some (res, m')"
    from inv_createSession[OF inv this] show "codes_bijective m'"
      by (rule inv_codes_bijective)
  qed
  have c: "\<forall>sid pid now. codes_bijective (snd (leaveSession m sid pid now))"
    using inv_leaveSession[OF inv] inv_codes_bijective by blast
  have d: "\<forall>sid. codes_bijective (snd (deleteSession m sid))"
    using inv_deleteSession[OF inv] inv_codes_bijective by blast
  have e: "\<forall>now. codes_bijective (performCleanup now m)"
    using inv_performCleanup[OF inv] inv_codes_bijective by blast
  from a b c d e show ?thesis by (intro conjI)
qed

theorem C9_join_codes_bijection_witness:
  "reachable example_alphabet example_manager2 \<and>
   Map_has (sessions example_manager2) ''s2'' \<and>
   getJoinCode example_manager2 ''s2'' = Some ''GHJKLM'' \<and>
   Map_get (joinCodes example_manager2) ''GHJKLM'' = Some ''s2'' \<and>
   Map_get (joinCodes example_manager2) ''ABCDEF'' \<noteq> Some ''s2'' \<and>
   getJoinCode example_manager2 ''s3'' = None \<and>
   codes_bijective (snd (deleteSession example_manager2 ''s1''))"
proof -
  note t = C9_join_codes_bijection[OF example_reachable2]
  from t have bij: "codes_bijective example_manager2" by (elim conjE)
  have l2: "Map_has (sessions example_manager2) ''s2''"
    by (simp add: example_manager2_def)
  have l3: "\<not> Map_has (sessions example_manager2) ''s3''"
    by (simp add: example_manager2_def)
  have g: "getJoinCode example_manager2 ''s2'' = Some ''GHJKLM''"
    by (simp add: example_manager2_def getJoinCode_def)
  from bij l2 obtain code where
    c: "getJoinCode example_manager2 ''s2'' = Some code"
       "\<forall>code'. (Map_get (joinCodes example_manager2) code' = Some ''s2'') = (code' = code)"
    unfolding codes_bijective_def by blast
  from c(1) g have "code = ''GHJKLM''" by simp
  with c(2) have u: "Map_get (joinCodes example_manager2) ''GHJKLM'' = Some ''s2''"
    "Map_get (joinCodes example_manager2) ''ABCDEF'' \<noteq> Some ''s2''" by simp_all
  from bij l3 have n: "getJoinCode example_manager2 ''s3'' = None"
    unfolding codes_bijective_def by blast
  from t have d: "codes_bijective (snd (deleteSession example_manager2 ''s1''))"
    by (elim conjE) (erule allE)
  from example_reachable2 l2 g u n d show ?thesis by (intro conjI)
qed

section \<open>Leaving and deleting\<close>

lemma deleteSession_present:
  assumes "Map_get (sessions m) sid = Some s"
  shows "fst (deleteSession m sid)"
    and "sessions (snd (deleteSession m sid)) = Map_delete (sessions m) sid"
    and "joinCodes (snd (deleteSession m sid)) =
           (case getJoinCode m sid of None \<Rightarrow> joinCodes m
            | Some code \<Rightarrow> Map_delete (joinCodes m) code)"
    and "sessions (snd (deleteSession m sid)) = [] \<longrightarrow>
           cleanupIntervalId (snd (deleteSession m sid)) = None"
  using assms
  by (auto simp: deleteSession_def Let_def stopCleanup_def releaseJoinCode_eq getJoinCode_def)

lemma deleteSession_absent:
  "Map_get (sessions m) sid = None \<Longrightarrow> deleteSession m sid = (False, m)"
  by (simp add: deleteSession_def)

lemma map_of_delete_same: "Map_get (Map_delete al k) k = None"
  by (simp add: delete_conv')

text \<open>
  C3: when \<open>deleteWhenEmpty\<close> is enabled and \<open>leaveSession\<close> removes the last participant
  of a session, the session is deleted within that call: right afterwards
  \<open>getSessionById\<close> returns \<open>null\<close> for its id and \<open>getSessionByJoinCode\<close> returns
  \<open>null\<close> for its former join code.
\<close>

theorem C3_leave_last_participant:
  assumes reach: "reachable chars m" and alpha: "validAlphabet chars"
    and dwe: "deleteWhenEmpty (cleanupConfig m)"
    and live: "Map_get (sessions m) sid = Some s"
    and last: "removeParticipant now pid s = (True, s')" "participants s' = []"
    and code: "getJoinCode m sid = Some code"
  shows "fst (leaveSession m sid pid now) \<and>
         getSessionById (snd (leaveSession m sid pid now)) sid = None \<and>
         getSessionByJoinCode (snd (leaveSession m sid pid now)) code = None"
proof -
  define m1 where "m1 = m\<lparr>sessions := Map_set (sessions m) sid s'\<rparr>"
  have s1: "Map_get (sessions m1) sid = Some s'" by (simp add: m1_def update_conv')
  have c1: "getJoinCode m1 sid = Some code" using code by (simp add: m1_def getJoinCode_def)
  have "cleanupIfEmpty m1 sid = snd (deleteSession m1 sid)"
    using s1 last(2) by (simp add: cleanupIfEmpty_def)
  then have l: "leaveSession m sid pid now = (True, snd (deleteSession m1 sid))"
    using live last(1) dwe by (simp add: leaveSession_def m1_def)
  note d = deleteSession_present[OF s1]
  have a: "getSessionById (snd (deleteSession m1 sid)) sid = None"
    by (simp add: getSessionById_def d(2) map_of_delete_same)
  have inv: "registry_inv chars m" using reach by (rule reachable_inv)
  from code have "(code, sid) \<in> set (joinCodes m)"
    by (simp add: getJoinCode_def getJoinCode_loop_Some)
  from inv_code_shape[OF inv this] alpha have n: "trim (toUpperCase code) = code"
    by (simp add: validAlphabet_code)
  have "Map_get (joinCodes (snd (deleteSession m1 sid))) code = None"
    by (simp add: d(3) c1 map_of_delete_same)
  with n have b: "getSessionByJoinCode (snd (deleteSession m1 sid)) code = None"
    by (simp add: getSessionByJoinCode_def)
  from l a b show ?thesis by simp
qed

theorem C3_leave_last_participant_witness:
  "reachable example_alphabet example_manager1 \<and> validAlphabet example_alphabet \<and>
   deleteWhenEmpty (cleanupConfig example_manager1) \<and>
   getSessionById example_manager1 ''s1'' = Some example_session1 \<and>
   getJoinCode example_manager1 ''s1'' = Some ''ABCDEF'' \<and>
   fst (leaveSession example_manager1 ''s1'' ''p1'' 5000) \<and>
   getSessionById (snd (leaveSession example_manager1 ''s1'' ''p1'' 5000)) ''s1'' = None \<and>
   getSessionByJoinCode (snd (leaveSession example_manager1 ''s1'' ''p1'' 5000)) ''ABCDEF'' = None"
proof -
  have dwe: "deleteWhenEmpty (cleanupConfig example_manager1)"
    by (simp add: example_manager1_def DEFAULT_CLEANUP_CONFIG_def)
  have live: "Map_get (sessions example_manager1) ''s1'' = Some example_session1"
    by (simp add: example_manager1_def)
  have last: "removeParticipant 5000 ''p1'' example_session1
                = (True, example_session1\<lparr>participants := [], updatedAt := 5000\<rparr>)"
    by (simp add: removeParticipant_def example_session1_def example_host1_def)
  have e: "participants (example_session1\<lparr>participants := [], updatedAt := 5000\<rparr>) = []"
    by simp
  have code: "getJoinCode example_manager1 ''s1'' = Some ''ABCDEF''"
    by (simp add: getJoinCode_def example_manager1_def)
  from C3_leave_last_participant[OF example_reachable1 example_alphabet_valid dwe live last e code]
    example_reachable1 example_alphabet_valid dwe live code
  show ?thesis by (simp add: getSessionById_def)
qed

section \<open>The sweep\<close>

lemma cleanupConfig_sweep: "cleanupConfig (sweep now es m) = cleanupConfig m"
  by (induction now es m rule: sweep.induct) (simp_all add: Let_def cleanupConfig_deleteSession)

lemma sessions_sweep:
  "sessions (sweep now es m) =
     filter (\<lambda>e. fst e \<notin> fst ` set (filter (\<lambda>e. expired (cleanupConfig m) now (snd e)) es))
       (sessions m)"
proof (induction now es m rule: sweep.induct)
  case (1 now m)
  show ?case by simp
next
  case (2 now sessionId session es m)
  let ?m' = "snd (deleteSession m sessionId)"
  have c: "cleanupConfig ?m' = cleanupConfig m" by (rule cleanupConfig_deleteSession)
  have s: "sessions ?m' = filter (\<lambda>e. fst e \<noteq> sessionId) (sessions m)"
    by (simp add: sessions_deleteSession delete_filter_fst)
  show ?case
  proof (cases "expired (cleanupConfig m) now session")
    case True
    then have "sweep now ((sessionId, session) # es) m = sweep now es ?m'"
      by (auto simp: expired_def Let_def)
    moreover have "sessions (sweep now es ?m') =
       filter (\<lambda>e. fst e \<notin> fst ` set (filter (\<lambda>e. expired (cleanupConfig ?m') now (snd e)) es))
         (sessions ?m')"
      using True "2.IH"(1) "2.IH"(2) by (auto simp: expired_def Let_def)
    ultimately show ?thesis
      using True unfolding c s by (auto intro: filter_cong simp: conj_commute)
  next
    case False
    then have "sweep now ((sessionId, session) # es) m = sweep now es m"
      by (auto simp: expired_def Let_def)
    moreover have "sessions (sweep now es m) =
       filter (\<lambda>e. fst e \<notin> fst ` set (filter (\<lambda>e. expired (cleanupConfig m) now (snd e)) es))
         (sessions m)"
      using False "2.IH"(3) by (auto simp: expired_def Let_def)
    ultimately show ?thesis using False by simp
  qed
qed

lemma sessions_performCleanup:
  assumes "distinct (map fst (sessions m))"
  shows "sessions (performCleanup now m) =
           filter (\<lambda>(sid, s). \<not> expired (cleanupConfig m) now s) (sessions m)"
proof -
  let ?D = "set (filter (\<lambda>e. expired (cleanupConfig m) now (snd e)) (sessions m))"
  have key: "(k \<notin> fst ` ?D) = (\<not> expired (cleanupConfig m) now s)"
    if mem: "(k, s) \<in> set (sessions m)" for k s
  proof
    assume n: "k \<notin> fst ` ?D"
    show "\<not> expired (cleanupConfig m) now s"
    proof
      assume "expired (cleanupConfig m) now s"
      with mem have "(k, s) \<in> ?D" by simp
      then have "fst (k, s) \<in> fst ` ?D" by (rule imageI)
      with n show False by simp
    qed
  next
    assume ne: "\<not> expired (cleanupConfig m) now s"
    show "k \<notin> fst ` ?D"
    proof
      assume "k \<in> fst ` ?D"
      then obtain e where e: "e \<in> ?D" "k = fst e" ..
      then have "(k, snd e) \<in> set (sessions m)" "expired (cleanupConfig m) now (snd e)"
        by simp_all
      from eq_key_imp_eq_value[OF assms this(1) mem] this(2) ne show False by simp
    qed
  qed
  have "filter (\<lambda>e. fst e \<notin> fst ` ?D) (sessions m) =
        filter (\<lambda>(sid, s). \<not> expired (cleanupConfig m) now s) (sessions m)"
  proof (rule filter_cong[OF refl])
    fix e assume "e \<in> set (sessions m)"
    then have "(fst e, snd e) \<in> set (sessions m)" by simp
    from key[OF this] show "(fst e \<notin> fst ` ?D) = (case e of (sid, s) \<Rightarrow> \<not> expired (cleanupConfig m) now s)"
      by (simp add: case_prod_beta)
  qed
  then show ?thesis by (simp only: performCleanup_def sessions_sweep)
qed

lemma map_of_filter_distinct:
  assumes "distinct (map fst al)" and "map_of al k = Some v"
  shows "map_of (filter (\<lambda>(k, v). P v) al) k = (if P v then Some v else None)"
proof (cases "P v")
  case True
  with assms(2) show ?thesis by (simp add: map_of_filter_in)
next
  case False
  have "k \<notin> fst ` set (filter (\<lambda>(k, v). P v) al)"
  proof
    assume "k \<in> fst ` set (filter (\<lambda>(k, v). P v) al)"
    then obtain v' where v': "(k, v') \<in> set al" "P v'" by auto
    from assms(2) have "(k, v) \<in> set al" by (rule map_of_SomeD)
    with assms(1) v'(1) have "v' = v" by (rule eq_key_imp_eq_value)
    with v'(2) False show False by simp
  qed
  then have "map_of (filter (\<lambda>(k, v). P v) al) k = None" by (simp add: map_of_eq_None_iff)
  with False show ?thesis by simp
qed

lemma map_of_filter_None: "map_of al k = None \<Longrightarrow> map_of (filter P al) k = None"
  by (auto simp: map_of_eq_None_iff)

text \<open>
  C4: one sweep at time \<open>now\<close> deletes exactly the sessions that are empty while
  \<open>deleteWhenEmpty\<close> is configured, or whose inactivity \<open>now - updatedAt\<close> exceeds
  \<open>maxInactivity\<close>; every other session survives unchanged and in order, whatever was
  deleted before it in the same sweep.
\<close>

theorem C4_sweep:
  assumes "reachable chars m"
  shows "sessions (performCleanup now m) =
           filter (\<lambda>(sid, s). \<not> ((deleteWhenEmpty (cleanupConfig m) \<and> participants s = []) \<or>
                                 now - updatedAt s > maxInactivity (cleanupConfig m)))
             (sessions m)
       \<and> (\<forall>sid s. getSessionById m sid = Some s \<longrightarrow>
             getSessionById (performCleanup now m) sid =
               (if (deleteWhenEmpty (cleanupConfig m) \<and> participants s = []) \<or>
                   now - updatedAt s > maxInactivity (cleanupConfig m)
                then None else Some s))
       \<and> (\<forall>sid. getSessionById m sid = None \<longrightarrow> getSessionById (performCleanup now m) sid = None)"
proof -
  have inv: "registry_inv chars m" using assms by (rule reachable_inv)
  then have dist: "distinct (map fst (sessions m))" by (simp add: registry_inv_def)
  have a: "sessions (performCleanup now m) =
           filter (\<lambda>(sid, s). \<not> expired (cleanupConfig m) now s) (sessions m)"
    using dist by (rule sessions_performCleanup)
  have b: "getSessionById (performCleanup now m) sid =
               (if expired (cleanupConfig m) now s then None else Some s)"
    if "getSessionById m sid = Some s" for sid s
    using that map_of_filter_distinct[OF dist, of sid s "\<lambda>s. \<not> expired (cleanupConfig m) now s"]
    unfolding getSessionById_def a by simp
  have c: "getSessionById (performCleanup now m) sid = None"
    if "getSessionById m sid = None" for sid
    using that unfolding getSessionById_def a by (rule map_of_filter_None)
  from a b c show ?thesis unfolding expired_def by (intro conjI allI impI)
qed

theorem C4_sweep_witness:
  "reachable example_alphabet example_manager2 \<and>
   sessions (performCleanup example_sweep_time example_manager2) = [(''s2'', example_session2)] \<and>
   getSessionById (performCleanup example_sweep_time example_manager2) ''s1'' = None \<and>
   getSessionById (performCleanup example_sweep_time example_manager2) ''s2''
     = Some example_session2 \<and>
   getSessionById (performCleanup example_sweep_time example_manager2) ''s3'' = None"
proof -
  note t = C4_sweep[OF example_reachable2, of example_sweep_time]
  have g1: "getSessionById example_manager2 ''s1'' = Some example_session1"
    and g2: "getSessionById example_manager2 ''s2'' = Some example_session2"
    and g3: "getSessionById example_manager2 ''s3'' = None"
    by (simp_all add: getSessionById_def example_manager2_def)
  have a: "sessions (performCleanup example_sweep_time example_manager2)
             = [(''s2'', example_session2)]"
    using t[THEN conjunct1]
    by (simp add: example_manager2_def example_session1_def example_session2_def
        DEFAULT_CLEANUP_CONFIG_def example_sweep_time_def)
  have b: "getSessionById (performCleanup example_sweep_time example_manager2) ''s1'' = None"
    using t[THEN conjunct2, THEN conjunct1, rule_format, OF g1]
    by (simp add: example_manager2_def example_session1_def
        DEFAULT_CLEANUP_CONFIG_def example_sweep_time_def)
  have c: "getSessionById (performCleanup example_sweep_time example_manager2) ''s2''
             = Some example_session2"
    using t[THEN conjunct2, THEN conjunct1, rule_format, OF g2]
    by (simp add: example_manager2_def example_session2_def example_host2_def
        DEFAULT_CLEANUP_CONFIG_def example_sweep_time_def)
  have d: "getSessionById (performCleanup example_sweep_time example_manager2) ''s3'' = None"
    using t[THEN conjunct2, THEN conjunct2, rule_format, OF g3] .
  from example_reachable2 a b c d show ?thesis by (intro conjI)
qed

section \<open>Deleting twice\<close>

lemma deleteSession_twice:
  "deleteSession (snd (deleteSession m sid)) sid = (False, snd (deleteSession m sid))"
proof -
  have "Map_get (sessions (snd (deleteSession m sid))) sid = None"
    by (simp add: sessions_deleteSession map_of_delete_same)
  then show ?thesis by (rule deleteSession_absent)
qed

text \<open>
  C7: \<open>deleteSession\<close> removes the session and its join code and nothing else, and stops
  the cleanup interval when no session is left; for an id that is not stored it returns
  \<open>false\<close> and changes nothing, so a second call with the same id returns \<open>false\<close> and
  two calls leave the state one call leaves.
\<close>

theorem C7_deleteSession_idempotent:
  assumes "reachable chars m"
  shows "(getSessionById m sid = None \<longrightarrow> deleteSession m sid = (False, m))
       \<and> (\<forall>s code. getSessionById m sid = Some s \<and> getJoinCode m sid = Some code \<longrightarrow>
             fst (deleteSession m sid)
             \<and> sessions (snd (deleteSession m sid)) = Map_delete (sessions m) sid
             \<and> joinCodes (snd (deleteSession m sid)) = Map_delete (joinCodes m) code
             \<and> getSessionById (snd (deleteSession m sid)) sid = None
             \<and> getJoinCode (snd (deleteSession m sid)) sid = None
             \<and> \<not> Map_has (joinCodes (snd (deleteSession m sid))) code
             \<and> (sessions (snd (deleteSession m sid)) = [] \<longrightarrow>
                  cleanupIntervalId (snd (deleteSession m sid)) = None))
       \<and> deleteSession (snd (deleteSession m sid)) sid = (False, snd (deleteSession m sid))
       \<and> snd (deleteSession (snd (deleteSession m sid)) sid) = snd (deleteSession m sid)"
proof -
  let ?m1 = "snd (deleteSession m sid)"
  have inv: "registry_inv chars m" using assms by (rule reachable_inv)
  then have inv1: "registry_inv chars ?m1" by (rule inv_deleteSession)
  have a: "getSessionById m sid = None \<longrightarrow> deleteSession m sid = (False, m)"
    by (simp add: getSessionById_def deleteSession_absent)
  have gone: "getSessionById ?m1 sid = None"
    by (simp add: getSessionById_def sessions_deleteSession map_of_delete_same)
  then have "\<not> Map_has (sessions ?m1) sid"
    by (simp add: getSessionById_def map_of_eq_None_iff)
  then have nocode: "getJoinCode ?m1 sid = None" by (simp add: inv_getJoinCode_live[OF inv1])
  have b: "fst (deleteSession m sid)
             \<and> sessions ?m1 = Map_delete (sessions m) sid
             \<and> joinCodes ?m1 = Map_delete (joinCodes m) code
             \<and> getSessionById ?m1 sid = None
             \<and> getJoinCode ?m1 sid = None
             \<and> \<not> Map_has (joinCodes ?m1) code
             \<and> (sessions ?m1 = [] \<longrightarrow> cleanupIntervalId ?m1 = None)"
    if h: "getSessionById m sid = Some s \<and> getJoinCode m sid = Some code" for s code
  proof -
    from h have live: "Map_get (sessions m) sid = Some s" by (simp add: getSessionById_def)
    note d = deleteSession_present[OF live]
    from h d(3) have j: "joinCodes ?m1 = Map_delete (joinCodes m) code" by simp
    have "\<not> Map_has (joinCodes ?m1) code" unfolding j by (rule delete_notin_dom)
    with d(1) d(2) j gone nocode d(4) show ?thesis by (intro conjI)
  qed
  have b': "\<forall>s code. getSessionById m sid = Some s \<and> getJoinCode m sid = Some code \<longrightarrow>
             fst (deleteSession m sid)
             \<and> sessions ?m1 = Map_delete (sessions m) sid
             \<and> joinCodes ?m1 = Map_delete (joinCodes m) code
             \<and> getSessionById ?m1 sid = None
             \<and> getJoinCode ?m1 sid = None
             \<and> \<not> Map_has (joinCodes ?m1) code
             \<and> (sessions ?m1 = [] \<longrightarrow> cleanupIntervalId ?m1 = None)"
    by (intro allI impI) (rule b)
  have c: "deleteSession ?m1 sid = (False, ?m1)" by (rule deleteSession_twice)
  then have e: "snd (deleteSession ?m1 sid) = ?m1" by simp
  from a b' c e show ?thesis by (intro conjI)
qed

theorem C7_deleteSession_idempotent_witness:
  "reachable example_alphabet example_manager1 \<and>
   getSessionById example_manager1 ''s1'' = Some example_session1 \<and>
   getJoinCode example_manager1 ''s1'' = Some ''ABCDEF'' \<and>
   fst (deleteSession example_manager1 ''s1'') \<and>
   sessions (snd (deleteSession example_manager1 ''s1'')) = [] \<and>
   joinCodes (snd (deleteSession example_manager1 ''s1'')) = [] \<and>
   cleanupIntervalId (snd (deleteSession example_manager1 ''s1'')) = None \<and>
   getSessionById (snd (deleteSession example_manager1 ''s1'')) ''s1'' = None \<and>
   getJoinCode (snd (deleteSession example_manager1 ''s1'')) ''s1'' = None \<and>
   deleteSession (snd (deleteSession example_manager1 ''s1'')) ''s1''
     = (False, snd (deleteSession example_manager1 ''s1'')) \<and>
   deleteSession example_manager1 ''s9'' = (False, example_manager1)"
proof -
  note t = C7_deleteSession_idempotent[OF example_reachable1]
  have g: "getSessionById example_manager1 ''s1'' = Some example_session1 \<and>
           getJoinCode example_manager1 ''s1'' = Some ''ABCDEF''"
    by (simp add: getSessionById_def getJoinCode_def example_manager1_def)
  have n: "getSessionById example_manager1 ''s9'' = None"
    by (simp add: getSessionById_def example_manager1_def)
  note b = t[of "''s1''", THEN conjunct2, THEN conjunct1, rule_format, OF g]
  from b have b1: "fst (deleteSession example_manager1 ''s1'')" by (elim conjE)
  from b have b2: "sessions (snd (deleteSession example_manager1 ''s1'')) = []"
    by (simp add: example_manager1_def)
  from b have b3: "joinCodes (snd (deleteSession example_manager1 ''s1'')) = []"
    by (simp add: example_manager1_def)
  from b b2 have b4: "cleanupIntervalId (snd (deleteSession example_manager1 ''s1'')) = None"
    by simp
  from b have b5: "getSessionById (snd (deleteSession example_manager1 ''s1'')) ''s1'' = None"
    by (elim conjE)
  from b have b6: "getJoinCode (snd (deleteSession example_manager1 ''s1'')) ''s1'' = None"
    by (elim conjE)
  from t[of "''s1''"] have c: "deleteSession (snd (deleteSession example_manager1 ''s1'')) ''s1''
     = (False, snd (deleteSession example_manager1 ''s1''))" by (elim conjE)
  from t[of "''s9''", THEN conjunct1] n
  have d: "deleteSession example_manager1 ''s9'' = (False, example_manager1)" by simp
  from example_reachable1 g b1 b2 b3 b4 b5 b6 c d show ?thesis by (intro conjI) (elim conjE, assumption)+
qed

section \<open>Handler registration\<close>




lemma on_eq:
  "on type handler st =
     st\<lparr>globalHandlers := Map_set (globalHandlers st) type
                             (Set_add (typeHandlers_of st type) handler)\<rparr>"
proof (cases "Map_get (globalHandlers st) type")
  case None
  then have "\<not> Map_has (globalHandlers st) type" by (simp add: map_of_eq_None_iff)
  with None show ?thesis
    by (simp add: on_def typeHandlers_of_def update_conv')
next
  case (Some hs)
  then have "Map_has (globalHandlers st) type" by (rule map_of_Some_has)
  with Some show ?thesis by (simp add: on_def typeHandlers_of_def)
qed

lemma unsubscribe_eq:
  "unsubscribe type handler st =
     (if Map_has (globalHandlers st) type
      then st\<lparr>globalHandlers := Map_set (globalHandlers st) type
                                  (Set_delete (typeHandlers_of st type) handler)\<rparr>
      else st)"
proof (cases "Map_get (globalHandlers st) type")
  case None
  then have "\<not> Map_has (globalHandlers st) type" by (simp add: map_of_eq_None_iff)
  with None show ?thesis by (simp add: unsubscribe_def)
next
  case (Some hs)
  then have "Map_has (globalHandlers st) type" by (rule map_of_Some_has)
  with Some show ?thesis by (simp add: unsubscribe_def typeHandlers_of_def)
qed














section \<open>Dispatch\<close>

text \<open>
  Registry calls change the handler sets and nothing else, keep the sets well-formed, and
  the effects of a dispatch are calls of handlers.
\<close>

lemma on_fields:
  "globalReconnectAttempts (on type handler st) = globalReconnectAttempts st \<and>
   globalWs (on type handler st) = globalWs st"
  by (simp add: on_eq)

lemma unsubscribe_fields:
  "globalReconnectAttempts (unsubscribe type handler st) = globalReconnectAttempts st \<and>
   globalWs (unsubscribe type handler st) = globalWs st"
  by (simp add: unsubscribe_eq)

lemma applyCall_fields:
  "globalReconnectAttempts (fst (applyCall type c sp)) = globalReconnectAttempts (fst sp) \<and>
   globalWs (fst (applyCall type c sp)) = globalWs (fst sp)"
  by (cases c; cases sp) (simp_all add: on_fields unsubscribe_fields)

lemma applyCalls_fields:
  "globalReconnectAttempts (fst (applyCalls type cs sp)) = globalReconnectAttempts (fst sp) \<and>
   globalWs (fst (applyCalls type cs sp)) = globalWs (fst sp)"
  by (induction cs arbitrary: sp) (simp_all add: applyCall_fields)



lemma forEach_fields:
  "globalReconnectAttempts (fst (forEach type payload results pending st))
     = globalReconnectAttempts st \<and>
   globalWs (fst (forEach type payload results pending st)) = globalWs st"
proof (induction type payload results pending st rule: forEach.induct)
  case (1 type payload results st)
  show ?case by simp
next
  case (2 type payload handler pending st)
  then show ?case by (simp add: split_beta)
next
  case (3 type payload r results handler pending st)
  obtain st1 pending1 where a: "applyCalls type (registryCalls r) (st, pending) = (st1, pending1)"
    by (cases "applyCalls type (registryCalls r) (st, pending)")
  from applyCalls_fields[of type "registryCalls r" "(st, pending)"] a
  have f: "globalReconnectAttempts st1 = globalReconnectAttempts st \<and> globalWs st1 = globalWs st"
    by simp
  show ?case
  proof (cases "handlerThrows r")
    case True
    with a f show ?thesis by simp
  next
    case False
    from "3.IH"[OF a[symmetric] refl False] a f False show ?thesis
      by (simp add: split_beta)
  qed
qed


lemma forEach_effects:
  "\<exists>hs. fst (snd (forEach type payload results pending st)) = map (\<lambda>h. Invoke h payload) hs"
proof (induction type payload results pending st rule: forEach.induct)
  case (1 type payload results st)
  show ?case by simp
next
  case (2 type payload handler pending st)
  then obtain hs where "fst (snd (forEach type payload [] pending st))
                          = map (\<lambda>h. Invoke h payload) hs" ..
  then have "fst (snd (forEach type payload [] (handler # pending) st))
               = map (\<lambda>h. Invoke h payload) (handler # hs)"
    by (simp add: split_beta)
  then show ?case ..
next
  case (3 type payload r results handler pending st)
  obtain st1 pending1 where a: "applyCalls type (registryCalls r) (st, pending) = (st1, pending1)"
    by (cases "applyCalls type (registryCalls r) (st, pending)")
  show ?case
  proof (cases "handlerThrows r")
    case True
    with a have "fst (snd (forEach type payload (r # results) (handler # pending) st))
                   = map (\<lambda>h. Invoke h payload) [handler]" by simp
    then show ?thesis ..
  next
    case False
    from "3.IH"[OF a[symmetric] refl False] obtain hs where
      "fst (snd (forEach type payload results pending1 st1)) = map (\<lambda>h. Invoke h payload) hs" ..
    with a False have "fst (snd (forEach type payload (r # results) (handler # pending) st))
                   = map (\<lambda>h. Invoke h payload) (handler # hs)"
      by (simp add: split_beta)
    then show ?thesis ..
  qed
qed

lemma emitEvent_fields:
  "globalReconnectAttempts (fst (emitEvent st type payload results)) = globalReconnectAttempts st \<and>
   globalWs (fst (emitEvent st type payload results)) = globalWs st"
  by (simp add: emitEvent_def forEach_fields split: option.splits)

lemma emitEvent_effects:
  "\<exists>hs. fst (snd (emitEvent st type payload results)) = map (\<lambda>h. Invoke h payload) hs"
proof (cases "Map_get (globalHandlers st) type")
  case None
  then have "fst (snd (emitEvent st type payload results)) = map (\<lambda>h. Invoke h payload) []"
    by (simp add: emitEvent_def)
  then show ?thesis ..
next
  case (Some hs)
  with forEach_effects[of type payload results hs st] show ?thesis by (simp add: emitEvent_def)
qed


lemma onmessage_fields:
  "globalReconnectAttempts (fst (onmessage message results st)) = globalReconnectAttempts st \<and>
   globalWs (fst (onmessage message results st)) = globalWs st"
  by (simp add: onmessage_def split_beta emitEvent_fields split: option.splits)

lemma onmessage_effects:
  "\<exists>payload hs. snd (onmessage message results st) = map (\<lambda>h. Invoke h payload) hs"
proof (cases message)
  case None
  then have "snd (onmessage message results st) = map (\<lambda>h. Invoke h JNull) []"
    by (simp add: onmessage_def)
  then show ?thesis by blast
next
  case (Some tp)
  obtain type payload where tp: "tp = (type, payload)" by (cases tp)
  from emitEvent_effects[of st type payload results] Some tp show ?thesis
    by (auto simp: onmessage_def split_beta)
qed


section \<open>Reconnecting\<close>

lemma attempts_cleanup: "globalReconnectAttempts (fst (cleanup st)) = globalReconnectAttempts st"
  by (simp add: cleanup_def split: option.splits)

lemma timer_cleanup: "globalReconnectTimer (fst (cleanup st)) = globalReconnectTimer st"
  by (simp add: cleanup_def split: option.splits)

lemma scheduled_cleanup: "scheduled (snd (cleanup st)) = []"
  by (simp add: cleanup_def split: option.splits)

lemma scheduled_append: "scheduled (xs @ ys) = scheduled xs @ scheduled ys"
  by (induction xs rule: scheduled.induct) simp_all

lemma onclose_cases:
  "onclose opts timerId st =
     (let c = cleanup (st\<lparr>globalStatus := disconnected\<rparr>)
      in if autoReconnect opts \<and> globalReconnectAttempts st < maxReconnectAttempts opts
         then (fst c\<lparr>globalReconnectAttempts := globalReconnectAttempts st + 1,
                       globalReconnectTimer := Some timerId\<rparr>,
               snd c @ [SetTimeout (reconnectDelay opts * 2 ^ globalReconnectAttempts st)])
         else c)"
  by (simp add: onclose_def Let_def split_beta attempts_cleanup[of "st\<lparr>globalStatus := disconnected\<rparr>", simplified])

lemma attempts_onclose:
  "globalReconnectAttempts (fst (onclose opts timerId st)) =
     (if autoReconnect opts \<and> globalReconnectAttempts st < maxReconnectAttempts opts
      then globalReconnectAttempts st + 1 else globalReconnectAttempts st)"
  by (simp add: onclose_cases Let_def attempts_cleanup)

lemma scheduled_onclose:
  "scheduled (snd (onclose opts timerId st)) =
     (if autoReconnect opts \<and> globalReconnectAttempts st < maxReconnectAttempts opts
      then [reconnectDelay opts * 2 ^ globalReconnectAttempts st] else [])"
  by (simp add: onclose_cases Let_def scheduled_append scheduled_cleanup)

lemma timer_onclose:
  "globalReconnectTimer (fst (onclose opts timerId st)) =
     (if autoReconnect opts \<and> globalReconnectAttempts st < maxReconnectAttempts opts
      then Some timerId else globalReconnectTimer st)"
  by (simp add: onclose_cases Let_def timer_cleanup)

lemma attempts_setReadyState [simp]:
  "globalReconnectAttempts (setReadyState r st) = globalReconnectAttempts st"
  by (simp add: setReadyState_def)

lemma attempts_disconnect:
  "globalReconnectAttempts (fst (disconnect opts st)) = maxReconnectAttempts opts"
  by (simp add: disconnect_def Let_def cleanup_def split: option.splits prod.splits)

lemma scheduled_disconnect: "scheduled (snd (disconnect opts st)) = []"
  by (auto simp: disconnect_def Let_def cleanup_def scheduled_append split: option.splits prod.splits)

lemma attempts_onopen: "globalReconnectAttempts (fst (onopen pingId st)) = 0"
  by (simp add: onopen_def)

lemma attempts_connect [simp]:
  "globalReconnectAttempts (fst (connect isClient throws st)) = globalReconnectAttempts st"
  by (simp add: connect_def Let_def)

lemma scheduled_connect [simp]: "scheduled (snd (connect isClient throws st)) = []"
  by (simp add: connect_def Let_def)

lemma attempts_send [simp]:
  "globalReconnectAttempts (fst (send now type payload st)) = globalReconnectAttempts st"
  by (simp add: send_def)

lemma scheduled_send [simp]: "scheduled (snd (send now type payload st)) = []"
  by (simp add: send_def)

lemma attempts_on [simp]:
  "globalReconnectAttempts (on type handler st) = globalReconnectAttempts st"
  by (simp add: on_def Let_def split: option.splits)

lemma attempts_unsubscribe [simp]:
  "globalReconnectAttempts (unsubscribe type handler st) = globalReconnectAttempts st"
  by (simp add: unsubscribe_def split: option.splits)

lemma scheduled_Invoke [simp]: "scheduled (map (\<lambda>h. Invoke h payload) hs) = []"
  by (induction hs) simp_all

lemma attempts_onmessage [simp]:
  "globalReconnectAttempts (fst (onmessage message results st)) = globalReconnectAttempts st"
  by (simp add: onmessage_fields)

lemma scheduled_onmessage [simp]: "scheduled (snd (onmessage message results st)) = []"
proof -
  from onmessage_effects[of message results st] obtain payload hs where
    "snd (onmessage message results st) = map (\<lambda>h. Invoke h payload) hs" by blast
  then show ?thesis by simp
qed

lemma attempts_onerror [simp]:
  "globalReconnectAttempts (fst (onerror st)) = globalReconnectAttempts st"
  by (simp add: onerror_def)

lemma scheduled_onerror [simp]: "scheduled (snd (onerror st)) = []"
  by (simp add: onerror_def)

lemma attempts_pingTick [simp]:
  "globalReconnectAttempts (fst (pingTick now st)) = globalReconnectAttempts st"
  by (simp add: pingTick_def)

lemma scheduled_pingTick [simp]: "scheduled (snd (pingTick now st)) = []"
  by (simp add: pingTick_def)

lemma scheduled_onopen [simp]: "scheduled (snd (onopen pingId st)) = []"
  by (simp add: onopen_def)

lemma step_not_open:
  assumes "\<not> isSocketOpen ev" and "globalReconnectAttempts st \<le> maxReconnectAttempts opts"
  shows "globalReconnectAttempts st \<le> globalReconnectAttempts (fst (step opts ev st))
       \<and> globalReconnectAttempts (fst (step opts ev st)) \<le> maxReconnectAttempts opts
       \<and> length (scheduled (snd (step opts ev st))) + globalReconnectAttempts st
           \<le> globalReconnectAttempts (fst (step opts ev st))"
proof (cases ev)
  case (SocketOpen pingId)
  with assms(1) show ?thesis by simp
next
  case Disconnect
  with assms(2) show ?thesis by (simp add: attempts_disconnect scheduled_disconnect)
next
  case (SocketClose timerId)
  with assms(2) show ?thesis by (simp add: attempts_onclose scheduled_onclose)
qed (use assms(2) in simp_all)

lemma step_attempts_le:
  assumes "globalReconnectAttempts st \<le> maxReconnectAttempts opts"
  shows "globalReconnectAttempts (fst (step opts ev st)) \<le> maxReconnectAttempts opts"
proof (cases "isSocketOpen ev")
  case True
  then obtain pingId where "ev = SocketOpen pingId" by (cases ev) simp_all
  then show ?thesis by (simp add: attempts_onopen)
next
  case False
  from step_not_open[OF False assms] show ?thesis by simp
qed

lemma run_attempts_le:
  "globalReconnectAttempts st \<le> maxReconnectAttempts opts \<Longrightarrow>
   globalReconnectAttempts (fst (run opts evs st)) \<le> maxReconnectAttempts opts"
proof (induction evs arbitrary: st)
  case Nil
  then show ?case by simp
next
  case (Cons ev evs)
  from Cons.IH[OF step_attempts_le[OF Cons.prems, of ev]] show ?case
    by (simp add: split_beta)
qed

lemma run_not_open:
  "\<forall>ev \<in> set evs. \<not> isSocketOpen ev \<Longrightarrow>
   globalReconnectAttempts st \<le> maxReconnectAttempts opts \<Longrightarrow>
   length (scheduled (snd (run opts evs st))) + globalReconnectAttempts st
     \<le> globalReconnectAttempts (fst (run opts evs st))"
proof (induction evs arbitrary: st)
  case Nil
  then show ?case by simp
next
  case (Cons ev evs)
  from Cons.prems have n: "\<not> isSocketOpen ev" and r: "\<forall>ev \<in> set evs. \<not> isSocketOpen ev"
    by simp_all
  note s = step_not_open[OF n Cons.prems(2)]
  from s have le: "globalReconnectAttempts (fst (step opts ev st)) \<le> maxReconnectAttempts opts"
    by simp
  from Cons.IH[OF r le] s show ?case
    by (simp add: split_beta scheduled_append)
qed

lemma run_closes:
  "autoReconnect opts \<Longrightarrow>
   scheduled (snd (run opts (map SocketClose timerIds) st)) =
     map (\<lambda>k. reconnectDelay opts * 2 ^ k)
       [globalReconnectAttempts st ..<
          max (globalReconnectAttempts st)
            (min (globalReconnectAttempts st + length timerIds) (maxReconnectAttempts opts))]"
proof (induction timerIds arbitrary: st)
  case Nil
  then show ?case by simp
next
  case (Cons t ts)
  define st1 where "st1 = fst (step opts (SocketClose t) st)"
  define a where "a = globalReconnectAttempts st"
  define M where "M = maxReconnectAttempts opts"
  define n where "n = length ts"
  have r: "scheduled (snd (run opts (map SocketClose (t # ts)) st)) =
             scheduled (snd (step opts (SocketClose t) st)) @
             scheduled (snd (run opts (map SocketClose ts) st1))"
    by (simp add: split_beta scheduled_append st1_def)
  have ih: "scheduled (snd (run opts (map SocketClose ts) st1)) =
     map (\<lambda>k. reconnectDelay opts * 2 ^ k)
       [globalReconnectAttempts st1 ..<
          max (globalReconnectAttempts st1) (min (globalReconnectAttempts st1 + n) M)]"
    unfolding n_def M_def by (rule Cons.IH[OF Cons.prems])
  show ?case
  proof (cases "a < M")
    case True
    then have a1: "globalReconnectAttempts st1 = a + 1"
      using Cons.prems by (simp add: st1_def a_def M_def attempts_onclose)
    have h: "scheduled (snd (step opts (SocketClose t) st)) = [reconnectDelay opts * 2 ^ a]"
      using True Cons.prems by (simp add: a_def M_def scheduled_onclose)
    have u: "[a ..< max a (min (a + Suc n) M)]
               = a # [a + 1 ..< max (a + 1) (min (a + 1 + n) M)]"
      using True by (simp add: upt_conv_Cons max_def min_def)
    have "scheduled (snd (run opts (map SocketClose (t # ts)) st)) =
            map (\<lambda>k. reconnectDelay opts * 2 ^ k) [a ..< max a (min (a + Suc n) M)]"
      unfolding r h ih a1 u by simp
    then show ?thesis by (simp add: a_def M_def n_def)
  next
    case False
    then have a1: "globalReconnectAttempts st1 = a"
      by (simp add: st1_def a_def M_def attempts_onclose)
    have h: "scheduled (snd (step opts (SocketClose t) st)) = []"
      using False by (simp add: a_def M_def scheduled_onclose)
    have u: "[a ..< max a (min (a + Suc n) M)] = []" "[a ..< max a (min (a + n) M)] = []"
      using False by (simp_all add: max_def min_def)
    have "scheduled (snd (run opts (map SocketClose (t # ts)) st)) =
            map (\<lambda>k. reconnectDelay opts * 2 ^ k) [a ..< max a (min (a + Suc n) M)]"
      unfolding r h ih a1 u by simp
    then show ?thesis by (simp add: a_def M_def n_def)
  qed
qed

text \<open>
  C5: with \<open>maxReconnectAttempts = 5\<close> the attempt counter never exceeds 5, whatever
  events occur; between two successful connects at most 5 reconnects are scheduled; a close
  at counter 5 schedules nothing and leaves the reconnect timer alone; a reconnect that a
  close schedules is delayed by \<open>reconnectDelay * 2 ^ (attempt - 1)\<close>, where \<open>attempt\<close> is the
  counter after its increment; closes in a row from counter 0 schedule the delays
  \<open>reconnectDelay * 2 ^ k\<close> for \<open>k = 0, ..., 4\<close> and no more; and \<open>onopen\<close> resets the counter
  to 0.
\<close>

theorem C5_reconnect:
  assumes "maxReconnectAttempts opts = 5"
  shows "(globalReconnectAttempts st \<le> 5 \<longrightarrow> globalReconnectAttempts (fst (run opts evs st)) \<le> 5)
       \<and> (globalReconnectAttempts st \<le> 5 \<and> (\<forall>ev \<in> set evs. \<not> isSocketOpen ev) \<longrightarrow>
            length (scheduled (snd (run opts evs st))) \<le> 5 - globalReconnectAttempts st)
       \<and> (globalReconnectAttempts st = 5 \<longrightarrow>
            scheduled (snd (onclose opts timerId st)) = [] \<and>
            globalReconnectTimer (fst (onclose opts timerId st)) = globalReconnectTimer st \<and>
            globalReconnectAttempts (fst (onclose opts timerId st)) = 5)
       \<and> (\<forall>d. d \<in> set (scheduled (snd (onclose opts timerId st))) \<longrightarrow>
            globalReconnectAttempts (fst (onclose opts timerId st)) = globalReconnectAttempts st + 1 \<and>
            d = reconnectDelay opts *
                  2 ^ (globalReconnectAttempts (fst (onclose opts timerId st)) - 1))
       \<and> (autoReconnect opts \<and> globalReconnectAttempts st = 0 \<longrightarrow>
            scheduled (snd (run opts (map SocketClose timerIds) st)) =
              map (\<lambda>k. reconnectDelay opts * 2 ^ k) [0 ..< min (length timerIds) 5])
       \<and> globalReconnectAttempts (fst (onopen pingId st)) = 0
       \<and> globalReconnectAttempts (fst (step opts (SocketOpen pingId) st)) = 0"
proof -
  have a: "globalReconnectAttempts st \<le> 5 \<longrightarrow> globalReconnectAttempts (fst (run opts evs st)) \<le> 5"
    using run_attempts_le[of st opts evs] assms by simp
  have b: "globalReconnectAttempts st \<le> 5 \<and> (\<forall>ev \<in> set evs. \<not> isSocketOpen ev) \<longrightarrow>
            length (scheduled (snd (run opts evs st))) \<le> 5 - globalReconnectAttempts st"
  proof
    assume h: "globalReconnectAttempts st \<le> 5 \<and> (\<forall>ev \<in> set evs. \<not> isSocketOpen ev)"
    then have le: "globalReconnectAttempts st \<le> maxReconnectAttempts opts" using assms by simp
    from h have no: "\<forall>ev \<in> set evs. \<not> isSocketOpen ev" by simp
    from run_not_open[OF no le] run_attempts_le[OF le, of evs] assms
    show "length (scheduled (snd (run opts evs st))) \<le> 5 - globalReconnectAttempts st"
      by simp
  qed
  have c: "globalReconnectAttempts st = 5 \<longrightarrow>
            scheduled (snd (onclose opts timerId st)) = [] \<and>
            globalReconnectTimer (fst (onclose opts timerId st)) = globalReconnectTimer st \<and>
            globalReconnectAttempts (fst (onclose opts timerId st)) = 5"
    using assms by (simp add: scheduled_onclose timer_onclose attempts_onclose)
  have d: "\<forall>d. d \<in> set (scheduled (snd (onclose opts timerId st))) \<longrightarrow>
            globalReconnectAttempts (fst (onclose opts timerId st)) = globalReconnectAttempts st + 1 \<and>
            d = reconnectDelay opts *
                  2 ^ (globalReconnectAttempts (fst (onclose opts timerId st)) - 1)"
    by (simp add: scheduled_onclose attempts_onclose)
  have e: "autoReconnect opts \<and> globalReconnectAttempts st = 0 \<longrightarrow>
            scheduled (snd (run opts (map SocketClose timerIds) st)) =
              map (\<lambda>k. reconnectDelay opts * 2 ^ k) [0 ..< min (length timerIds) 5]"
  proof
    assume h: "autoReconnect opts \<and> globalReconnectAttempts st = 0"
    then have "autoReconnect opts" by simp
    from run_closes[OF this, of timerIds st] h assms
    show "scheduled (snd (run opts (map SocketClose timerIds) st)) =
              map (\<lambda>k. reconnectDelay opts * 2 ^ k) [0 ..< min (length timerIds) 5]"
      by simp
  qed
  have f: "globalReconnectAttempts (fst (onopen pingId st)) = 0" by (rule attempts_onopen)
  have g: "globalReconnectAttempts (fst (step opts (SocketOpen pingId) st)) = 0"
    by (simp add: attempts_onopen)
  from a b c d e f g show ?thesis by (intro conjI)
qed

theorem C5_reconnect_witness:
  "maxReconnectAttempts defaultOptions = 5 \<and>
   globalReconnectAttempts initialState = 0 \<and>
   scheduled (snd (run defaultOptions example_closes initialState))
     = [1000, 2000, 4000, 8000, 16000] \<and>
   length (scheduled (snd (run defaultOptions example_closes initialState))) \<le> 5 \<and>
   globalReconnectAttempts (fst (run defaultOptions example_closes initialState)) \<le> 5 \<and>
   globalReconnectAttempts
     (fst (step defaultOptions (SocketOpen 3) (fst (run defaultOptions example_closes initialState))))
     = 0"
proof -
  have m: "maxReconnectAttempts defaultOptions = 5" by (simp add: defaultOptions_def)
  have z: "globalReconnectAttempts initialState = 0" by (simp add: initialState_def)
  have ar: "autoReconnect defaultOptions \<and> globalReconnectAttempts initialState = 0"
    by (simp add: defaultOptions_def initialState_def)
  have no: "globalReconnectAttempts initialState \<le> 5 \<and>
            (\<forall>ev \<in> set example_closes. \<not> isSocketOpen ev)"
    by (simp add: initialState_def example_closes_def)
  note t = C5_reconnect[OF m, of initialState example_closes]
  have a: "scheduled (snd (run defaultOptions example_closes initialState))
             = [1000, 2000, 4000, 8000, 16000]"
  proof -
    have "map (\<lambda>k. reconnectDelay defaultOptions * 2 ^ k) [0 ..< min (length [11, 12, 13, 14, 15, 16, 17 :: nat]) 5]
            = [1000, 2000, 4000, 8000, 16000]"
      by code_simp
    with t[of _ "[11, 12, 13, 14, 15, 16, 17]", THEN conjunct2, THEN conjunct2, THEN conjunct2,
        THEN conjunct2, THEN conjunct1, rule_format, OF ar]
    show ?thesis by (simp add: example_closes_def)
  qed
  from t[THEN conjunct2, THEN conjunct1, rule_format, OF no] z
  have b: "length (scheduled (snd (run defaultOptions example_closes initialState))) \<le> 5"
    by simp
  from t[THEN conjunct1] z
  have c: "globalReconnectAttempts (fst (run defaultOptions example_closes initialState)) \<le> 5"
    by simp
  have d: "globalReconnectAttempts
     (fst (step defaultOptions (SocketOpen 3) (fst (run defaultOptions example_closes initialState))))
     = 0"
    by (rule C5_reconnect[OF m, where pingId = 3, THEN conjunct2, THEN conjunct2, THEN conjunct2,
          THEN conjunct2, THEN conjunct2, THEN conjunct2])
  from m z a b c d show ?thesis by (intro conjI)
qed

section \<open>Sending\<close>

lemma globalWs_disconnect: "globalWs (fst (disconnect opts st)) = None"
  by (simp add: disconnect_def Let_def cleanup_def split: option.splits prod.splits)

lemma transmitted_append: "transmitted (xs @ ys) = transmitted xs @ transmitted ys"
  by (induction xs rule: transmitted.induct) simp_all

lemma transmitted_Invoke: "transmitted (map (\<lambda>h. Invoke h payload) hs) = []"
  by (induction hs) simp_all

lemma transmitted_cleanup: "transmitted (snd (cleanup st)) = []"
  by (simp add: cleanup_def split: option.splits)

lemma globalWs_cleanup: "globalWs (fst (cleanup st)) = globalWs st"
  by (simp add: cleanup_def split: option.splits)

lemma transmitted_disconnect: "transmitted (snd (disconnect opts st)) = []"
  by (auto simp: disconnect_def Let_def cleanup_def transmitted_append
      split: option.splits prod.splits)

lemma transmitted_onclose: "transmitted (snd (onclose opts timerId st)) = []"
  by (simp add: onclose_cases Let_def transmitted_append transmitted_cleanup)

lemma globalWs_onclose: "globalWs (fst (onclose opts timerId st)) = globalWs st"
  by (simp add: onclose_cases Let_def globalWs_cleanup)

lemma transmitted_onmessage: "transmitted (snd (onmessage message results st)) = []"
proof -
  from onmessage_effects[of message results st] obtain payload hs where
    "snd (onmessage message results st) = map (\<lambda>h. Invoke h payload) hs" by blast
  then show ?thesis by (simp add: transmitted_Invoke)
qed

lemma transmitted_step:
  "transmitted (snd (step opts ev st)) =
     (case ev of
        Send now type payload \<Rightarrow>
          if globalWs st = Some OPEN then [envelope type payload now] else []
      | PingTick now \<Rightarrow>
          if globalWs st = Some OPEN then [envelope ''ping'' (JObject []) now] else []
      | _ \<Rightarrow> [])"
  by (cases ev)
     (simp_all add: connect_def Let_def send_def onopen_def transmitted_onmessage
        onerror_def pingTick_def transmitted_disconnect transmitted_onclose)

lemma globalWs_step_not_open:
  assumes "globalWs st \<noteq> Some OPEN" and "\<not> isSocketOpen ev"
  shows "globalWs (fst (step opts ev st)) \<noteq> Some OPEN"
proof (cases ev)
  case (SocketOpen pingId)
  with assms(2) show ?thesis by simp
next
  case Disconnect
  then show ?thesis by (simp add: globalWs_disconnect)
next
  case (SocketClose timerId)
  then show ?thesis by (simp add: globalWs_onclose setReadyState_def)
next
  case (On type handler)
  with assms(1) show ?thesis by (simp add: on_eq)
next
  case (Unsubscribe type handler)
  with assms(1) show ?thesis by (simp add: unsubscribe_eq)
qed (use assms(1) in \<open>simp_all add: connect_def Let_def send_def onmessage_fields onerror_def
      pingTick_def\<close>)

lemma run_not_connected:
  "globalWs st \<noteq> Some OPEN \<Longrightarrow> \<forall>ev \<in> set evs. \<not> isSocketOpen ev \<Longrightarrow>
   transmitted (snd (run opts evs st)) = []"
proof (induction evs arbitrary: st)
  case Nil
  then show ?case by simp
next
  case (Cons ev evs)
  from Cons.prems have n: "\<not> isSocketOpen ev" and r: "\<forall>ev \<in> set evs. \<not> isSocketOpen ev"
    by simp_all
  have t: "transmitted (snd (step opts ev st)) = []"
    using Cons.prems(1) by (simp add: transmitted_step split: event.splits)
  from Cons.IH[OF globalWs_step_not_open[OF Cons.prems(1) n] r] t show ?case
    by (simp add: split_beta transmitted_append)
qed

lemma run_frames:
  "frame \<in> set (transmitted (snd (run opts evs st))) \<Longrightarrow>
   \<exists>type payload now. frame = envelope type payload now"
proof (induction evs arbitrary: st)
  case Nil
  then show ?case by simp
next
  case (Cons ev evs)
  from Cons.prems
  have "frame \<in> set (transmitted (snd (step opts ev st))) \<or>
        frame \<in> set (transmitted (snd (run opts evs (fst (step opts ev st)))))"
    by (simp add: split_beta transmitted_append)
  then show ?case
  proof
    assume "frame \<in> set (transmitted (snd (step opts ev st)))"
    then show ?thesis
      by (auto simp: transmitted_step split: event.splits if_splits)
  next
    assume "frame \<in> set (transmitted (snd (run opts evs (fst (step opts ev st)))))"
    then show ?thesis by (rule Cons.IH)
  qed
qed

text \<open>
  C8: when the socket is absent or not \<open>OPEN\<close>, \<open>send\<close> transmits nothing, leaves the
  state as it is and only warns; when the socket is \<open>OPEN\<close> it transmits exactly one
  envelope with the type, the payload and the clock reading as timestamp, and leaves the
  state as it is. Nothing is transmitted in the initial state, after \<open>disconnect\<close>, or in
  any sequence of events that starts without an open socket and has no successful connect;
  and every frame the channel ever transmits is such an envelope.
\<close>

theorem C8_send:
  "(globalWs st \<noteq> Some OPEN \<longrightarrow>
      fst (send now type payload st) = st \<and>
      transmitted (snd (send now type payload st)) = [] \<and>
      snd (send now type payload st) = [Warn ''[WebSocket] Cannot send message: not connected''])
   \<and> (globalWs st = Some OPEN \<longrightarrow>
      fst (send now type payload st) = st \<and>
      snd (send now type payload st) =
        [Transmit (JObject [(''type'', JString type), (''payload'', payload),
                            (''timestamp'', JNumber now)])] \<and>
      length (transmitted (snd (send now type payload st))) = 1)
   \<and> fst (step opts (Send now type payload) st) = st
   \<and> transmitted (snd (send now type payload initialState)) = []
   \<and> transmitted (snd (send now type payload (fst (disconnect opts st)))) = []
   \<and> (globalWs st \<noteq> Some OPEN \<and> (\<forall>ev \<in> set evs. \<not> isSocketOpen ev) \<longrightarrow>
        transmitted (snd (run opts evs st)) = [])
   \<and> (\<forall>frame \<in> set (transmitted (snd (run opts evs st))).
        \<exists>type payload now.
          frame = JObject [(''type'', JString type), (''payload'', payload),
                           (''timestamp'', JNumber now)])"
proof -
  have a: "(globalWs st \<noteq> Some OPEN \<longrightarrow>
      fst (send now type payload st) = st \<and>
      transmitted (snd (send now type payload st)) = [] \<and>
      snd (send now type payload st) = [Warn ''[WebSocket] Cannot send message: not connected''])
   \<and> (globalWs st = Some OPEN \<longrightarrow>
      fst (send now type payload st) = st \<and>
      snd (send now type payload st) =
        [Transmit (JObject [(''type'', JString type), (''payload'', payload),
                            (''timestamp'', JNumber now)])] \<and>
      length (transmitted (snd (send now type payload st))) = 1)
   \<and> fst (step opts (Send now type payload) st) = st
   \<and> transmitted (snd (send now type payload initialState)) = []
   \<and> transmitted (snd (send now type payload (fst (disconnect opts st)))) = []"
    by (simp add: send_def envelope_def initialState_def globalWs_disconnect)
  have b: "globalWs st \<noteq> Some OPEN \<and> (\<forall>ev \<in> set evs. \<not> isSocketOpen ev) \<longrightarrow>
        transmitted (snd (run opts evs st)) = []"
    using run_not_connected[of st evs opts] by simp
  have c: "\<forall>frame \<in> set (transmitted (snd (run opts evs st))).
        \<exists>type payload now.
          frame = JObject [(''type'', JString type), (''payload'', payload),
                           (''timestamp'', JNumber now)]"
    using run_frames[of _ opts evs st] unfolding envelope_def by blast
  from a b c show ?thesis by (elim conjE, intro conjI)
qed

theorem C8_send_witness:
  "globalWs initialState \<noteq> Some OPEN \<and>
   send 1700000000000 ''vote:submit'' (JObject [(''value'', JString ''5'')]) initialState
     = (initialState, [Warn ''[WebSocket] Cannot send message: not connected'']) \<and>
   globalWs example_open = Some OPEN \<and>
   send 1700000000000 ''vote:submit'' (JObject [(''value'', JString ''5'')]) example_open
     = (example_open,
        [Transmit (JObject [(''type'', JString ''vote:submit''),
                            (''payload'', JObject [(''value'', JString ''5'')]),
                            (''timestamp'', JNumber 1700000000000)])]) \<and>
   transmitted (snd (run defaultOptions
       [Send 1 ''ping'' JNull, Connect True False, PingTick 5, Send 9 ''ping'' JNull]
       initialState)) = []"
proof -
  have c: "globalWs initialState \<noteq> Some OPEN" by (simp add: initialState_def)
  have n: "globalWs initialState \<noteq> Some OPEN \<and>
           (\<forall>ev \<in> set [Send 1 ''ping'' JNull, Connect True False, PingTick 5,
                          Send 9 ''ping'' JNull]. \<not> isSocketOpen ev)"
    by (simp add: initialState_def)
  note t3 = C8_send[of initialState _ _ _ defaultOptions
      "[Send 1 ''ping'' JNull, Connect True False, PingTick 5, Send 9 ''ping'' JNull]",
      THEN conjunct2, THEN conjunct2, THEN conjunct2, THEN conjunct2, THEN conjunct2,
      THEN conjunct1, rule_format, OF n]
  have o: "globalWs example_open = Some OPEN"
    by (simp add: example_open_def initialState_def connect_def onopen_def setReadyState_def
        Let_def)
  note t1 = C8_send[of initialState 1700000000000 "''vote:submit''"
      "JObject [(''value'', JString ''5'')]", THEN conjunct1, rule_format, OF c]
  note t2 = C8_send[of example_open 1700000000000 "''vote:submit''"
      "JObject [(''value'', JString ''5'')]", THEN conjunct2, THEN conjunct1, rule_format, OF o]
  from t1 have a: "send 1700000000000 ''vote:submit'' (JObject [(''value'', JString ''5'')]) initialState
     = (initialState, [Warn ''[WebSocket] Cannot send message: not connected''])"
    by (simp add: prod_eq_iff)
  from t2 have b: "send 1700000000000 ''vote:submit'' (JObject [(''value'', JString ''5'')]) example_open
     = (example_open,
        [Transmit (JObject [(''type'', JString ''vote:submit''),
                            (''payload'', JObject [(''value'', JString ''5'')]),
                            (''timestamp'', JNumber 1700000000000)])])"
    by (simp add: prod_eq_iff)
  from c a o b t3 show ?thesis by (intro conjI)
qed

section \<open>Handlers and messages\<close>

lemma handlers_cleanup [simp]: "globalHandlers (fst (cleanup st)) = globalHandlers st"
  by (simp add: cleanup_def split: option.splits)

lemma handlers_onclose [simp]: "globalHandlers (fst (onclose opts timerId st)) = globalHandlers st"
  by (simp add: onclose_cases Let_def)

lemma handlers_disconnect [simp]: "globalHandlers (fst (disconnect opts st)) = globalHandlers st"
  by (simp add: disconnect_def Let_def cleanup_def split: option.splits prod.splits)

















end
